theory Spec2Isabelle
  imports Complex_Main
begin

section \<open>JavaScript values used by the lead scraper\<close>

text \<open>
  The repository holds three variants of one script: \<^verbatim>\<open>src/index.js\<close>,
  \<^verbatim>\<open>src/index2.js\<close> and \<^verbatim>\<open>src/unnamed/part_000\<close>. Functions that are the
  same in the three files are modelled once; where the files differ the model takes the
  variant as an argument and has one branch per file.
\<close>

datatype variant = Index | Index2 | Part000

text \<open>
  An optional string property of a JSON object: \<open>None\<close> is \<^verbatim>\<open>undefined\<close>.
  A string is falsy exactly when it is \<^verbatim>\<open>undefined\<close> or empty.
\<close>

type_synonym js_string = "string option"

definition truthy :: "js_string \<Rightarrow> bool" where
  "truthy s = (case s of None \<Rightarrow> False | Some t \<Rightarrow> t \<noteq> [])"

text \<open>\<^verbatim>\<open>a || b\<close> on two optional strings, and \<^verbatim>\<open>a || "literal"\<close>.\<close>

definition js_or :: "js_string \<Rightarrow> js_string \<Rightarrow> js_string" where
  "js_or a b = (if truthy a then a else b)"

definition or_lit :: "js_string \<Rightarrow> string \<Rightarrow> string" where
  "or_lit a d = (case a of None \<Rightarrow> d | Some t \<Rightarrow> if t = [] then d else t)"

text \<open>\<^verbatim>\<open>url.startsWith(p)\<close> and \<^verbatim>\<open>url.includes(p)\<close>.\<close>

fun startsWith :: "string \<Rightarrow> string \<Rightarrow> bool" where
  "startsWith s [] = True"
| "startsWith [] (p # ps) = False"
| "startsWith (c # cs) (p # ps) = (c = p \<and> startsWith cs ps)"

fun js_includes :: "string \<Rightarrow> string \<Rightarrow> bool" where
  "js_includes [] p = (p = [])"
| "js_includes (c # cs) p = (startsWith (c # cs) p \<or> js_includes cs p)"

section \<open>Data model\<close>

text \<open>A search hit (\<^verbatim>\<open>place\<close>) and the record of the detail service (\<^verbatim>\<open>details\<close>).\<close>

record place =
  place_id :: string
  place_name :: js_string
  place_formatted_address :: js_string

record details =
  name :: js_string
  formatted_address :: js_string
  website :: js_string
  formatted_phone_number :: js_string
  user_ratings_total :: "int option"
  rating :: "rat option"
  business_status :: js_string

text \<open>The object \<^verbatim>\<open>{}\<close> that \<^verbatim>\<open>getPlaceDetails\<close> returns on failure.\<close>

definition empty_details :: details where
  "empty_details = \<lparr>name = None, formatted_address = None, website = None,
     formatted_phone_number = None, user_ratings_total = None, rating = None,
     business_status = None\<rparr>"

text \<open>The argument of \<^verbatim>\<open>addToAirtable\<close>; part_000 passes no \<^verbatim>\<open>websiteQuality\<close>.\<close>

record lead =
  leadName :: string
  contactProfileURL :: string
  businessName :: string
  businessURL :: string
  cityState :: string
  phone :: string
  websiteQuality :: js_string

text \<open>A row of the sheet \<^verbatim>\<open>'Search Log'!A:D\<close>.\<close>

record log_row =
  row_name :: string
  row_address :: string
  row_date :: string
  row_placeId :: string

section \<open>The outside world\<close>

text \<open>
  Every call of an external service made while one hit is processed is answered by the
  \<open>world\<close> that comes with the hit: the detail service, the live fetch of the website
  (part_000 only), the record store (duplicate lookup and create) and the append to the
  sheet. Each is called at most once per hit, so one answer per service is enough, and a
  theorem for all worlds covers every behaviour of the services.
\<close>

datatype detail_response =
  DetailFailed
| DetailOk "details option" js_string

text \<open>
  The value \<^verbatim>\<open>res.data\<close> that \<^verbatim>\<open>axios.get(url)\<close> hands over for a website. axios parses
  a body that is JSON, so the value is a string only for a body that is not JSON (or is a
  JSON string); otherwise it is null, a boolean, a number, an array (kept by its number
  of elements) or an object (kept by its \<^verbatim>\<open>length\<close> property, the only one the code
  reads). A \<^verbatim>\<open>length\<close> property that is not a number is converted by JavaScript before
  it is compared, and the conversion can throw: \<open>LengthOther\<close> carries the value of
  \<^verbatim>\<open>length < 2000\<close> for it, \<open>None\<close> when the comparison throws.
\<close>

datatype length_prop = NoLength | LengthNumber rat | LengthOther "bool option"

datatype res_data =
  DataNull
| DataBool bool
| DataNumber rat
| DataString string
| DataArray nat
| DataObject length_prop

record world =
  detail_resp :: detail_response
  site_fetch :: "res_data option"
  dup_lookup :: "bool option"
  create_ok :: bool
  append_ok :: bool
  today :: string

text \<open>The external calls a run makes, in the order it makes them.\<close>

datatype event =
  GetDetails string
| FetchSite string
| AddToAirtable lead
| AirtableSelect string
| AirtableCreate lead bool
| SheetsAppend log_row bool

section \<open>DedupCache: the set \<^verbatim>\<open>existingPlaceIds\<close>\<close>

text \<open>
  \<^verbatim>\<open>loadExistingBusinesses\<close>: the column read either fails (\<open>None\<close>) or gives the rows
  of column D, each a list of cells. index.js and index2.js keep the old set on failure,
  part_000 resets it.
\<close>

definition loadExistingBusinesses ::
  "variant \<Rightarrow> string set \<Rightarrow> string list list option option \<Rightarrow> string set" where
  "loadExistingBusinesses v existingPlaceIds res =
     (case res of
        None \<Rightarrow> (if v = Part000 then {} else existingPlaceIds)
      | Some vals \<Rightarrow>
          (let placeIds = (case vals of None \<Rightarrow> [] | Some rows \<Rightarrow> concat rows)
           in set (filter (\<lambda>p. p \<noteq> []) placeIds)))"

definition isLoggedInSearchLogCached :: "string set \<Rightarrow> string \<Rightarrow> bool" where
  "isLoggedInSearchLogCached existingPlaceIds placeId = (placeId \<in> existingPlaceIds)"

text \<open>
  \<^verbatim>\<open>logBusinessSearch\<close>, the same in the three files: return at once when the id is
  cached; otherwise append the row and, only when the append did not throw, add the id to
  the set. The \<^verbatim>\<open>catch\<close> swallows a failed append.
\<close>

definition logBusinessSearch ::
  "world \<Rightarrow> string set \<Rightarrow> string \<Rightarrow> string \<Rightarrow> string \<Rightarrow> string set \<times> event list" where
  "logBusinessSearch w existingPlaceIds bName address placeId =
     (if isLoggedInSearchLogCached existingPlaceIds placeId then (existingPlaceIds, [])
      else
        (let row = \<lparr>row_name = bName, row_address = address, row_date = today w,
                    row_placeId = placeId\<rparr>
         in if append_ok w
            then (insert placeId existingPlaceIds, [SheetsAppend row True])
            else (existingPlaceIds, [SheetsAppend row False])))"

section \<open>External service wrappers\<close>

text \<open>
  \<^verbatim>\<open>getPlaceDetails\<close>: any exception gives \<^verbatim>\<open>{}\<close>; part_000 also throws (and so
  gives \<^verbatim>\<open>{}\<close>) when the response carries an \<^verbatim>\<open>error_message\<close>; otherwise
  \<^verbatim>\<open>res.data.result || {}\<close>.
\<close>

definition getPlaceDetails :: "variant \<Rightarrow> detail_response \<Rightarrow> details" where
  "getPlaceDetails v resp =
     (case resp of
        DetailFailed \<Rightarrow> empty_details
      | DetailOk result err \<Rightarrow>
          (if v = Part000 \<and> truthy err then empty_details
           else (case result of None \<Rightarrow> empty_details | Some d \<Rightarrow> d)))"

text \<open>\<^verbatim>\<open>isDuplicate\<close>: a failed lookup counts as "no duplicate".\<close>

definition isDuplicate :: "world \<Rightarrow> bool" where
  "isDuplicate w = (case dup_lookup w of None \<Rightarrow> False | Some b \<Rightarrow> b)"

text \<open>
  \<^verbatim>\<open>addToAirtable\<close>: look the business name up, create the row unless a row of that
  name exists; a failed create is caught and logged.
\<close>

definition addToAirtable :: "world \<Rightarrow> lead \<Rightarrow> event list" where
  "addToAirtable w data =
     [AddToAirtable data, AirtableSelect (businessName data)] @
     (if isDuplicate w then [] else [AirtableCreate data (create_ok w)])"

section \<open>Website quality\<close>

text \<open>\<^verbatim>\<open>evaluateWebsiteQuality\<close> of index.js.\<close>

definition evaluateWebsiteQuality_index :: "js_string \<Rightarrow> string" where
  "evaluateWebsiteQuality_index url =
     (case url of
        None \<Rightarrow> ''No Website''
      | Some u \<Rightarrow>
          if u = [] then ''No Website''
          else if js_includes u ''linktr.ee'' \<or> js_includes u ''joinblvd.com'' \<or>
                  js_includes u ''square.site'' \<or> js_includes u ''facebook.com''
          then ''Poor''
          else ''Decent'')"

text \<open>\<^verbatim>\<open>evaluateWebsiteQuality\<close> of index2.js.\<close>

definition evaluateWebsiteQuality_index2 :: "js_string \<Rightarrow> string" where
  "evaluateWebsiteQuality_index2 url =
     (case url of
        None \<Rightarrow> ''No Website''
      | Some u \<Rightarrow>
          if u = [] then ''No Website''
          else if js_includes u ''facebook.com'' \<or> js_includes u ''instagram.com''
          then ''No Website''
          else ''Has Website'')"

text \<open>
  \<^verbatim>\<open>!res.data\<close>: null, false, 0 and the empty string are falsy, every array and object is
  truthy.
\<close>

fun data_falsy :: "res_data \<Rightarrow> bool" where
  "data_falsy DataNull = True"
| "data_falsy (DataBool b) = (\<not> b)"
| "data_falsy (DataNumber n) = (n = 0)"
| "data_falsy (DataString s) = (s = [])"
| "data_falsy (DataArray n) = False"
| "data_falsy (DataObject l) = False"

text \<open>
  \<^verbatim>\<open>res.data.length < 2000\<close>, \<open>None\<close> when it throws. A string has its number of
  characters and an array its number of elements; a number, a boolean and an object
  without the property have the length \<^verbatim>\<open>undefined\<close>, which is below nothing; reading
  the property of null throws.
\<close>

fun length_below_2000 :: "res_data \<Rightarrow> bool option" where
  "length_below_2000 DataNull = None"
| "length_below_2000 (DataBool b) = Some False"
| "length_below_2000 (DataNumber n) = Some False"
| "length_below_2000 (DataString s) = Some (length s < 2000)"
| "length_below_2000 (DataArray n) = Some (n < 2000)"
| "length_below_2000 (DataObject NoLength) = Some False"
| "length_below_2000 (DataObject (LengthNumber r)) = Some (r < 2000)"
| "length_below_2000 (DataObject (LengthOther given)) = given"

text \<open>
  \<^verbatim>\<open>isWebsiteLowBudget\<close> of part_000. The live fetch is the field \<open>site_fetch\<close> of the
  world: \<open>None\<close> when \<^verbatim>\<open>axios.get\<close> throws (also on the 5000 ms timeout and on a status
  outside 2xx), otherwise \<^verbatim>\<open>res.data\<close>. Line 166 returns true when \<^verbatim>\<open>res.data\<close> is
  falsy or its length is below 2000; an exception anywhere is caught and gives true. The
  function returns its verdict and the fetch it made, if any.
\<close>

definition freePlatforms :: "string list" where
  "freePlatforms = [''wixsite.com'', ''weebly.com'', ''wordpress.com'']"

definition isWebsiteLowBudget :: "world \<Rightarrow> js_string \<Rightarrow> bool \<times> event list" where
  "isWebsiteLowBudget w url =
     (case url of
        None \<Rightarrow> (True, [])
      | Some u \<Rightarrow>
          if u = [] then (True, [])
          else if \<not> startsWith u ''https://'' then (True, [])
          else if list_ex (\<lambda>p. js_includes u p) freePlatforms then (True, [])
          else (case site_fetch w of
                  None \<Rightarrow> (True, [FetchSite u])
                | Some data \<Rightarrow>
                    (if data_falsy data then (True, [FetchSite u])
                     else (case length_below_2000 data of
                             None \<Rightarrow> (True, [FetchSite u])
                           | Some below \<Rightarrow>
                               if below then (True, [FetchSite u])
                               else (False, [FetchSite u])))))"

section \<open>Qualification\<close>

definition MIN_REVIEWS :: "variant \<Rightarrow> int" where
  "MIN_REVIEWS v = (case v of Index \<Rightarrow> 5 | Index2 \<Rightarrow> 20 | Part000 \<Rightarrow> 5)"

definition MIN_RATING :: rat where
  "MIN_RATING = 3"

definition NEW_RESULTS_LIMIT :: "variant \<Rightarrow> nat" where
  "NEW_RESULTS_LIMIT v = (case v of Index \<Rightarrow> 20 | Index2 \<Rightarrow> 20 | Part000 \<Rightarrow> 5)"


text \<open>
  index2.js, lines 178 to 190: \<^verbatim>\<open>addToMainTable\<close> starts as "the class is No Website"
  and is reset to false by the status, review and rating tests.
\<close>

definition addToMainTable_index2 :: "details \<Rightarrow> bool" where
  "addToMainTable_index2 d =
     (let websiteQuality = evaluateWebsiteQuality_index2 (website d);
          addToMainTable = (websiteQuality = ''No Website'')
      in if addToMainTable \<and>
            ((truthy (business_status d) \<and> business_status d \<noteq> Some ''OPERATIONAL'') \<or>
             (case user_ratings_total d of None \<Rightarrow> 0 | Some n \<Rightarrow> n) < MIN_REVIEWS Index2 \<or>
             (case rating d of None \<Rightarrow> 5 | Some r \<Rightarrow> r) < MIN_RATING)
         then False
         else addToMainTable)"

text \<open>
  part_000, lines 204 to 222: a record with no website is kept without a fetch, one with
  a website is kept when \<^verbatim>\<open>isWebsiteLowBudget\<close> says so; then the same three tests.
\<close>

definition addToMainTable_part000 :: "world \<Rightarrow> details \<Rightarrow> bool \<times> event list" where
  "addToMainTable_part000 w d =
     (let (addToMainTable, evs) =
            (if \<not> truthy (website d) then (True, [])
             else isWebsiteLowBudget w (website d))
      in if addToMainTable \<and>
            ((truthy (business_status d) \<and> business_status d \<noteq> Some ''OPERATIONAL'') \<or>
             (user_ratings_total d = None \<or>
              (case user_ratings_total d of None \<Rightarrow> False | Some n \<Rightarrow> n < MIN_REVIEWS Part000)) \<or>
             (rating d \<noteq> None \<and>
              (case rating d of None \<Rightarrow> False | Some r \<Rightarrow> r < MIN_RATING)))
         then (False, evs)
         else (addToMainTable, evs))"

section \<open>PipelineOrchestrator: the body of the loop over the hits\<close>

definition contactProfile :: "string \<Rightarrow> string" where
  "contactProfile placeId = ''https://www.google.com/maps/place/?q=place_id:'' @ placeId"

text \<open>
  One iteration of \<^verbatim>\<open>for (const place of results)\<close> after the \<^verbatim>\<open>break\<close> test: the new
  \<^verbatim>\<open>newCount\<close>, the new cache and the external calls made. Every \<^verbatim>\<open>continue\<close> leaves
  both unchanged.
\<close>

definition process_place_index ::
  "nat \<Rightarrow> string set \<Rightarrow> place \<Rightarrow> world \<Rightarrow> nat \<times> string set \<times> event list" where
  "process_place_index newCount existingPlaceIds p w =
     (let d = getPlaceDetails Index (detail_resp w);
          ev = [GetDetails (place_id p)];
          address = or_lit (formatted_address d) [];
          placeId = place_id p
      in case js_or (name d) (place_name p) of
           None \<Rightarrow> (newCount, existingPlaceIds, ev)
         | Some bName \<Rightarrow>
             if bName = [] \<or> address = [] \<or> placeId = [] then (newCount, existingPlaceIds, ev)
             else if isLoggedInSearchLogCached existingPlaceIds placeId
               then (newCount, existingPlaceIds, ev)
             else if business_status d \<noteq> Some ''OPERATIONAL''
               then (newCount, existingPlaceIds, ev)
             else if \<not> truthy (js_or (website d) (formatted_phone_number d))
               then (newCount, existingPlaceIds, ev)
             else if (case user_ratings_total d of None \<Rightarrow> 0 | Some n \<Rightarrow> n) < 5
               then (newCount, existingPlaceIds, ev)
             else
               (let q = evaluateWebsiteQuality_index (website d);
                    data = \<lparr>leadName = [], contactProfileURL = contactProfile placeId,
                       businessName = bName, businessURL = or_lit (website d) [],
                       cityState = address, phone = or_lit (formatted_phone_number d) [],
                       websiteQuality = Some q\<rparr>;
                    ev2 = addToAirtable w data;
                    (cache', ev3) = logBusinessSearch w existingPlaceIds bName address placeId
                in (newCount + 1, cache', ev @ ev2 @ ev3)))"

definition process_place_index2 ::
  "nat \<Rightarrow> string set \<Rightarrow> place \<Rightarrow> world \<Rightarrow> nat \<times> string set \<times> event list" where
  "process_place_index2 newCount existingPlaceIds p w =
     (let d = getPlaceDetails Index2 (detail_resp w);
          ev = [GetDetails (place_id p)];
          bName = or_lit (js_or (name d) (place_name p)) ''Unknown'';
          address = or_lit (formatted_address d) [];
          placeId = place_id p
      in if isLoggedInSearchLogCached existingPlaceIds placeId
         then (newCount, existingPlaceIds, ev)
         else
           (let q = evaluateWebsiteQuality_index2 (website d);
                data = \<lparr>leadName = [], contactProfileURL = contactProfile (place_id p),
                   businessName = bName, businessURL = or_lit (website d) [],
                   cityState = address, phone = or_lit (formatted_phone_number d) [],
                   websiteQuality = Some q\<rparr>;
                (newCount', ev2) =
                   (if addToMainTable_index2 d then (newCount + 1, addToAirtable w data)
                    else (newCount, []));
                (cache', ev3) = logBusinessSearch w existingPlaceIds bName address placeId
            in (newCount', cache', ev @ ev2 @ ev3)))"

definition process_place_part000 ::
  "nat \<Rightarrow> string set \<Rightarrow> place \<Rightarrow> world \<Rightarrow> nat \<times> string set \<times> event list" where
  "process_place_part000 newCount existingPlaceIds p w =
     (let d = getPlaceDetails Part000 (detail_resp w);
          ev = [GetDetails (place_id p)];
          bName = or_lit (js_or (name d) (place_name p)) ''Unknown'';
          address = or_lit (js_or (formatted_address d) (place_formatted_address p)) [];
          placeId = place_id p
      in if isLoggedInSearchLogCached existingPlaceIds placeId
         then (newCount, existingPlaceIds, ev)
         else
           (let (addToMainTable, ev1) = addToMainTable_part000 w d;
                data = \<lparr>leadName = [], contactProfileURL = contactProfile (place_id p),
                   businessName = bName, businessURL = or_lit (website d) [],
                   cityState = address, phone = or_lit (formatted_phone_number d) [],
                   websiteQuality = None\<rparr>;
                (newCount', ev2) =
                   (if addToMainTable then (newCount + 1, addToAirtable w data)
                    else (newCount, []));
                (cache', ev3) = logBusinessSearch w existingPlaceIds bName address placeId
            in (newCount', cache', ev @ ev1 @ ev2 @ ev3)))"

definition process_place ::
  "variant \<Rightarrow> nat \<Rightarrow> string set \<Rightarrow> place \<Rightarrow> world \<Rightarrow> nat \<times> string set \<times> event list" where
  "process_place v =
     (case v of Index \<Rightarrow> process_place_index | Index2 \<Rightarrow> process_place_index2
      | Part000 \<Rightarrow> process_place_part000)"

text \<open>
  The loop over the hits of one bucket, with its \<^verbatim>\<open>break\<close> once \<^verbatim>\<open>newCount\<close> has
  reached the limit. A hit comes with the world that answers its calls.
\<close>

fun places_loop ::
  "variant \<Rightarrow> nat \<Rightarrow> string set \<Rightarrow> (place \<times> world) list \<Rightarrow> string set \<times> event list" where
  "places_loop v newCount existingPlaceIds [] = (existingPlaceIds, [])"
| "places_loop v newCount existingPlaceIds (pw # rest) =
     (if newCount \<ge> NEW_RESULTS_LIMIT v then (existingPlaceIds, [])
      else
        (case process_place v newCount existingPlaceIds (fst pw) (snd pw) of
           (newCount', cache', ev) \<Rightarrow>
             (case places_loop v newCount' cache' rest of
                (cache'', ev') \<Rightarrow> (cache'', ev @ ev'))))"

text \<open>
  A run: the nested loops over cities, sweep points and keywords, flattened into the list
  of their buckets in the order the loops visit them; each bucket is the list of hits
  \<^verbatim>\<open>searchPlaces\<close> returned for it, and \<^verbatim>\<open>newCount\<close> restarts at 0. A run that a
  throwing \<^verbatim>\<open>searchPlaces\<close> ends early is the run over the buckets before it.
\<close>

fun run ::
  "variant \<Rightarrow> string set \<Rightarrow> (place \<times> world) list list \<Rightarrow> string set \<times> event list" where
  "run v existingPlaceIds [] = (existingPlaceIds, [])"
| "run v existingPlaceIds (b # bs) =
     (case places_loop v 0 existingPlaceIds b of
        (cache', ev) \<Rightarrow>
          (case run v cache' bs of (cache'', ev') \<Rightarrow> (cache'', ev @ ev')))"

text \<open>Projections of a trace: rows appended to the sheet, leads handed to the store.\<close>

fun appended_rows :: "event list \<Rightarrow> log_row list" where
  "appended_rows [] = []"
| "appended_rows (SheetsAppend r ok # es) = (if ok then r # appended_rows es else appended_rows es)"
| "appended_rows (e # es) = appended_rows es"

fun forwarded_leads :: "event list \<Rightarrow> lead list" where
  "forwarded_leads [] = []"
| "forwarded_leads (AddToAirtable l # es) = l # forwarded_leads es"
| "forwarded_leads (e # es) = forwarded_leads es"

definition count_appended :: "string \<Rightarrow> event list \<Rightarrow> nat" where
  "count_appended pid ev = length (filter (\<lambda>r. row_placeId r = pid) (appended_rows ev))"

definition count_forwarded :: "string \<Rightarrow> event list \<Rightarrow> nat" where
  "count_forwarded pid ev =
     length (filter (\<lambda>l. contactProfileURL l = contactProfile pid) (forwarded_leads ev))"

text \<open>The rows sent to the sheet, whether the append succeeded or not.\<close>

fun append_attempts :: "event list \<Rightarrow> log_row list" where
  "append_attempts [] = []"
| "append_attempts (SheetsAppend r ok # es) = r # append_attempts es"
| "append_attempts (e # es) = append_attempts es"

section \<open>PaginatedSearchClient: \<^verbatim>\<open>searchPlaces\<close>\<close>

text \<open>
  The body \<^verbatim>\<open>res.data\<close> of one page, and the outcome of one \<^verbatim>\<open>axios.get\<close>: it
  throws, or it gives a page.
\<close>

record page =
  results :: "place list option"
  next_page_token :: js_string
  error_message :: js_string

datatype response = RequestFailed string | Response page

text \<open>\<^verbatim>\<open>res.data.results || []\<close>.\<close>

definition page_results :: "page \<Rightarrow> place list" where
  "page_results pg = (case results pg of None \<Rightarrow> [] | Some hs \<Rightarrow> hs)"

text \<open>
  The \<^verbatim>\<open>do ... while\<close> loop. The search service is the list of its answers to the
  successive requests. Nothing in the source bounds the number of pages, so the loop can
  outlive any finite list of answers: \<open>None\<close> says that the answers ran out while the
  loop was still asking. Otherwise the result is the outcome, \<open>Inl\<close> the message of the
  exception thrown and \<open>Inr\<close> the hits returned, with the \<^verbatim>\<open>pagetoken\<close> of every request
  issued, in order (\<open>None\<close> for a request without one). Only part_000 tests
  \<^verbatim>\<open>error_message\<close>. \<open>maxResults\<close> is a number of hits: the defaults are 20 and 60 and
  every caller passes 60.
\<close>

fun search_loop ::
  "variant \<Rightarrow> response list \<Rightarrow> nat \<Rightarrow> place list \<Rightarrow> js_string \<Rightarrow>
     ((string + place list) \<times> js_string list) option" where
  "search_loop v [] maxResults allResults nextPageToken = None"
| "search_loop v (r # rs) maxResults allResults nextPageToken =
     (let req = (if truthy nextPageToken then nextPageToken else None)
      in case r of
           RequestFailed msg \<Rightarrow> Some (Inl msg, [req])
         | Response pg \<Rightarrow>
             if v = Part000 \<and> truthy (error_message pg)
             then Some (Inl (or_lit (error_message pg) []), [req])
             else
               (let allResults' = allResults @ page_results pg;
                    nextPageToken' = next_page_token pg
                in if truthy nextPageToken' \<and> length allResults' < maxResults
                   then (case search_loop v rs maxResults allResults' nextPageToken' of
                           None \<Rightarrow> None
                         | Some (out, reqs) \<Rightarrow> Some (out, req # reqs))
                   else Some (Inr (take maxResults allResults'), [req])))"

definition searchPlaces ::
  "variant \<Rightarrow> response list \<Rightarrow> nat \<Rightarrow> ((string + place list) \<times> js_string list) option" where
  "searchPlaces v rs maxResults = search_loop v rs maxResults [] None"

text \<open>The hits of the first \<open>k\<close> answers, whole pages concatenated.\<close>

fun response_results :: "response \<Rightarrow> place list" where
  "response_results (RequestFailed msg) = []"
| "response_results (Response pg) = page_results pg"

definition fetched :: "response list \<Rightarrow> nat \<Rightarrow> place list" where
  "fetched rs k = concat (map response_results (take k rs))"

text \<open>An answer after which the loop asks for no further page.\<close>

fun stops :: "response \<Rightarrow> bool" where
  "stops (RequestFailed msg) = True"
| "stops (Response pg) = (\<not> truthy (next_page_token pg))"

section \<open>The rules of the qualification filter, as the specification words them\<close>

text \<open>
  These predicates follow the rule list of the specification, with the constants of each
  file. They are compared below with what the code computes in \<open>addToMainTable_index2\<close>,
  \<open>addToMainTable_part000\<close> and \<open>process_place_index\<close>.
\<close>

definition activity_rule :: "variant \<Rightarrow> details \<Rightarrow> bool" where
  "activity_rule v d =
     (case v of
        Index \<Rightarrow> business_status d = Some ''OPERATIONAL''
      | _ \<Rightarrow> \<not> truthy (business_status d) \<or> business_status d = Some ''OPERATIONAL'')"

definition contactability_rule :: "details \<Rightarrow> bool" where
  "contactability_rule d = (truthy (website d) \<or> truthy (formatted_phone_number d))"

definition popularity_rule :: "variant \<Rightarrow> details \<Rightarrow> bool" where
  "popularity_rule v d =
     (case user_ratings_total d of None \<Rightarrow> False | Some n \<Rightarrow> MIN_REVIEWS v \<le> n)"

definition rating_rule :: "details \<Rightarrow> bool" where
  "rating_rule d = (case rating d of None \<Rightarrow> True | Some r \<Rightarrow> MIN_RATING \<le> r)"

text \<open>
  No-website policy (index2.js): the website is absent or points to a social-profile
  domain of the denylist.
\<close>

definition website_rule_index2 :: "details \<Rightarrow> bool" where
  "website_rule_index2 d =
     (case website d of
        None \<Rightarrow> True
      | Some u \<Rightarrow> u = [] \<or> js_includes u ''facebook.com'' \<or> js_includes u ''instagram.com'')"

text \<open>
  Strict-content policy (part_000): the website is absent, or not on a secure transport
  scheme, or hosted on a free-tier platform of the denylist, or its live fetch shows too
  little content. The code measures the content on \<^verbatim>\<open>res.data\<close>, the body as axios
  hands it over, not on the bytes of the body: the fetch fails, or the data is falsy, or
  its \<^verbatim>\<open>length\<close> is below 2000 (or cannot be compared at all).
\<close>

definition low_content :: "res_data option \<Rightarrow> bool" where
  "low_content fetch =
     (case fetch of
        None \<Rightarrow> True
      | Some data \<Rightarrow>
          data_falsy data \<or>
          (case length_below_2000 data of None \<Rightarrow> True | Some below \<Rightarrow> below))"

definition website_rule_part000 :: "world \<Rightarrow> details \<Rightarrow> bool" where
  "website_rule_part000 w d =
     (case website d of
        None \<Rightarrow> True
      | Some u \<Rightarrow>
          u = [] \<or> \<not> startsWith u ''https://'' \<or>
          js_includes u ''wixsite.com'' \<or> js_includes u ''weebly.com'' \<or>
          js_includes u ''wordpress.com'' \<or> low_content (site_fetch w))"

text \<open>
  index.js, line 239: the hit has a name, an address and an id. Together with "not
  cached" this is what lets a hit reach the filters of index.js.
\<close>

definition complete_index :: "place \<Rightarrow> details \<Rightarrow> bool" where
  "complete_index p d =
     (truthy (js_or (name d) (place_name p)) \<and> or_lit (formatted_address d) [] \<noteq> [] \<and>
      place_id p \<noteq> [])"

section \<open>Invariants of a run\<close>

definition appended_ids :: "event list \<Rightarrow> string list" where
  "appended_ids ev = map row_placeId (appended_rows ev)"

text \<open>
  What one hit can do to the cache and the trace: at most one lead is forwarded, it
  carries the id of the hit and the id was not cached; and either nothing is appended and
  the cache is unchanged, or the id was not cached, one row with it is appended and it is
  cached afterwards.
\<close>

definition effect :: "string \<Rightarrow> string set \<Rightarrow> string set \<Rightarrow> event list \<Rightarrow> bool" where
  "effect pid c c' ev =
     ((\<forall>l \<in> set (forwarded_leads ev). contactProfileURL l = contactProfile pid \<and> pid \<notin> c) \<and>
      length (forwarded_leads ev) \<le> 1 \<and>
      ((c' = c \<and> appended_ids ev = []) \<or>
       (pid \<notin> c \<and> c' = insert pid c \<and> appended_ids ev = [pid])))"

text \<open>
  The invariant of a stretch of a run from cache \<open>c\<close> to cache \<open>c'\<close>: the cache only
  grows, no id is appended twice, every appended id was new and is cached at the end, and
  no lead is forwarded for an id that was cached at the start.
\<close>

definition grows :: "string set \<Rightarrow> string set \<Rightarrow> event list \<Rightarrow> bool" where
  "grows c c' ev =
     (c \<subseteq> c' \<and> distinct (appended_ids ev) \<and>
      (\<forall>i \<in> set (appended_ids ev). i \<notin> c \<and> i \<in> c') \<and>
      (\<forall>l \<in> set (forwarded_leads ev). \<forall>pid \<in> c. contactProfileURL l \<noteq> contactProfile pid))"

text \<open>
  The same stretch seen from one id: at most one lead is forwarded for it, none when it
  was cached at the start, and after a forwarded lead the id is cached.
\<close>

definition forwards_once :: "string \<Rightarrow> string set \<Rightarrow> string set \<Rightarrow> event list \<Rightarrow> bool" where
  "forwards_once pid c c' ev =
     (c \<subseteq> c' \<and> count_forwarded pid ev \<le> 1 \<and>
      (pid \<in> c \<longrightarrow> count_forwarded pid ev = 0) \<and>
      (count_forwarded pid ev = 1 \<longrightarrow> pid \<in> c'))"

text \<open>Every append of a row for \<open>pid\<close> in these hits succeeds.\<close>

definition appends_succeed :: "string \<Rightarrow> (place \<times> world) list \<Rightarrow> bool" where
  "appends_succeed pid hits = list_all (\<lambda>pw. place_id (fst pw) = pid \<longrightarrow> append_ok (snd pw)) hits"

section \<open>GeoGridGenerator: \<^verbatim>\<open>generateCityGrid\<close>\<close>

text \<open>
  A JavaScript number is an IEEE 754 double: \<open>Num q\<close> is the finite double of value
  \<open>q\<close>. The sign of zero is left out: every zero prints as \<^verbatim>\<open>0\<close> in a template
  literal, the only use \<^verbatim>\<open>generateCityGrid\<close> makes of its numbers.
\<close>

datatype jsnum = NaN | PosInf | NegInf | Num rat

text \<open>
  \<open>ilog2 q\<close> is the binary exponent of a positive \<open>q\<close>, the integer \<open>k\<close> with
  \<open>2 ^ k \<le> q < 2 ^ (k + 1)\<close>, found by halving or doubling.
\<close>

function log2_up :: "rat \<Rightarrow> int" where
  "log2_up q = (if q < 2 then 0 else 1 + log2_up (q / 2))"
  by pat_completeness auto
termination
proof (relation "measure (\<lambda>q. nat \<lfloor>q\<rfloor>)")
  show "wf (measure (\<lambda>q::rat. nat \<lfloor>q\<rfloor>))" by simp
next
  fix q :: rat assume "\<not> q < 2"
  then have "2 \<le> q" by simp
  then have "\<lfloor>q / 2\<rfloor> < \<lfloor>q\<rfloor>" by linarith
  moreover have "0 < \<lfloor>q\<rfloor>" using \<open>2 \<le> q\<close> by linarith
  ultimately show "(q / 2, q) \<in> measure (\<lambda>q. nat \<lfloor>q\<rfloor>)" by simp
qed

function log2_down :: "rat \<Rightarrow> int" where
  "log2_down q = (if q \<le> 0 \<or> 1 \<le> q then 0 else log2_down (2 * q) - 1)"
  by pat_completeness auto
termination
proof (relation "measure (\<lambda>q. nat \<lfloor>1 / q\<rfloor>)")
  show "wf (measure (\<lambda>q::rat. nat \<lfloor>1 / q\<rfloor>))" by simp
next
  fix q :: rat assume "\<not> (q \<le> 0 \<or> 1 \<le> q)"
  then have q: "0 < q" "q < 1" by simp_all
  define x where "x = 1 / q"
  have x: "1 < x" using q by (simp add: x_def)
  have h: "1 / (2 * q) = x / 2" by (simp add: x_def)
  have "1 \<le> \<lfloor>x\<rfloor>" using x by (simp add: le_floor_iff)
  then have "x / 2 < of_int \<lfloor>x\<rfloor>" by linarith
  then have "\<lfloor>x / 2\<rfloor> < \<lfloor>x\<rfloor>" by (simp add: floor_less_iff)
  then have "\<lfloor>1 / (2 * q)\<rfloor> < \<lfloor>1 / q\<rfloor>" unfolding h unfolding x_def .
  moreover have "0 < \<lfloor>1 / q\<rfloor>" using x by (simp add: x_def)
  ultimately show "(2 * q, q) \<in> measure (\<lambda>q. nat \<lfloor>1 / q\<rfloor>)" by simp
qed

definition ilog2 :: "rat \<Rightarrow> int" where
  "ilog2 q = (if q < 1 then log2_down q else log2_up q)"

declare log2_up.simps [simp del] log2_down.simps [simp del]

text \<open>
  Rounding to the nearest double, ties to the even significand: a double has 53
  significant bits and no exponent below \<open>-1074\<close>, and a result of magnitude \<open>2 ^ 1024\<close>
  or more is an infinity.
\<close>

definition round_even :: "rat \<Rightarrow> int" where
  "round_even x =
     (let f = \<lfloor>x\<rfloor>; d = x - of_int f
      in if d < 1 / 2 then f else if 1 / 2 < d then f + 1 else if even f then f else f + 1)"

definition ulp_exp :: "rat \<Rightarrow> int" where
  "ulp_exp q = max (ilog2 \<bar>q\<bar> - 52) (- 1074)"

definition to_double :: "rat \<Rightarrow> jsnum" where
  "to_double q =
     (if q = 0 then Num 0
      else
        (let e = ulp_exp q;
             r = of_int (round_even (q / 2 powi e)) * 2 powi e
         in if 2 powi 1024 \<le> \<bar>r\<bar> then (if 0 < q then PosInf else NegInf) else Num r))"

text \<open>The operators \<^verbatim>\<open>-x\<close>, \<^verbatim>\<open>x + y\<close> and \<^verbatim>\<open>x - y\<close> on numbers.\<close>

fun js_neg :: "jsnum \<Rightarrow> jsnum" where
  "js_neg NaN = NaN"
| "js_neg PosInf = NegInf"
| "js_neg NegInf = PosInf"
| "js_neg (Num a) = Num (- a)"

fun js_add :: "jsnum \<Rightarrow> jsnum \<Rightarrow> jsnum" where
  "js_add (Num a) (Num b) = to_double (a + b)"
| "js_add NaN y = NaN"
| "js_add x NaN = NaN"
| "js_add PosInf NegInf = NaN"
| "js_add NegInf PosInf = NaN"
| "js_add PosInf y = PosInf"
| "js_add x PosInf = PosInf"
| "js_add NegInf y = NegInf"
| "js_add x NegInf = NegInf"

definition js_sub :: "jsnum \<Rightarrow> jsnum \<Rightarrow> jsnum" where
  "js_sub x y = js_add x (js_neg y)"

text \<open>The literal \<^verbatim>\<open>0.03\<close> is the double nearest to 3/100.\<close>

definition searchGridOffset :: jsnum where
  "searchGridOffset = to_double (3 / 100)"

text \<open>
  \<^verbatim>\<open>generateCityGrid\<close> (index.js and index2.js; part_000 searches the city centre
  only). The model takes the pair of numbers that \<^verbatim>\<open>coord.split(",").map(Number)\<close>
  yields and returns the five pairs of numbers that the template literals print.
\<close>

definition generateCityGrid :: "jsnum \<times> jsnum \<Rightarrow> (jsnum \<times> jsnum) list" where
  "generateCityGrid coord =
     (let (lat, lng) = coord
      in [(lat, lng),
          (js_add lat searchGridOffset, lng),
          (js_sub lat searchGridOffset, lng),
          (lat, js_add lng searchGridOffset),
          (lat, js_sub lng searchGridOffset)])"

section \<open>Example inputs\<close>

definition demo_place :: place where
  "demo_place = \<lparr>place_id = ''p1'', place_name = Some ''Glow Spa'',
     place_formatted_address = Some ''1 Main St''\<rparr>"

definition demo_details :: details where
  "demo_details = \<lparr>name = Some ''Glow Spa'', formatted_address = Some ''1 Main St'',
     website = None, formatted_phone_number = Some ''555-0100'',
     user_ratings_total = Some 25, rating = Some (42 / 10),
     business_status = Some ''OPERATIONAL''\<rparr>"

definition demo_world :: world where
  "demo_world = \<lparr>detail_resp = DetailOk (Some demo_details) None, site_fetch = None,
     dup_lookup = Some False, create_ok = True, append_ok = True, today = ''2025-01-01''\<rparr>"

definition demo_run :: "(place \<times> world) list list" where
  "demo_run = [[(demo_place, demo_world), (demo_place, demo_world)]]"

definition demo_closed_world :: world where
  "demo_closed_world = demo_world\<lparr>detail_resp :=
     DetailOk (Some (demo_details\<lparr>business_status := Some ''CLOSED_PERMANENTLY''\<rparr>)) None\<rparr>"

definition demo_offline_world :: world where
  "demo_offline_world = demo_world\<lparr>append_ok := False\<rparr>"

definition demo_hit :: "string \<Rightarrow> place" where
  "demo_hit i = \<lparr>place_id = i, place_name = Some ''Spa'', place_formatted_address = None\<rparr>"

definition demo_page1 :: page where
  "demo_page1 = \<lparr>results = Some [demo_hit ''a'', demo_hit ''b''], next_page_token = Some ''t1'',
     error_message = None\<rparr>"

definition demo_page2 :: page where
  "demo_page2 = \<lparr>results = Some [demo_hit ''c'', demo_hit ''d''], next_page_token = None,
     error_message = None\<rparr>"

definition demo_error_page :: page where
  "demo_error_page = \<lparr>results = None, next_page_token = None,
     error_message = Some ''OVER_QUERY_LIMIT''\<rparr>"

definition demo_site_details :: details where
  "demo_site_details = demo_details\<lparr>website := Some ''https://glowspa.example''\<rparr>"

definition demo_up_world :: world where
  "demo_up_world = demo_world\<lparr>site_fetch := Some (DataString (replicate 2000 (CHR ''x'')))\<rparr>"

definition demo_closed_trace :: "event list" where
  "demo_closed_trace = [GetDetails ''p1'', SheetsAppend \<lparr>row_name = ''Glow Spa'',
     row_address = ''1 Main St'', row_date = ''2025-01-01'', row_placeId = ''p1''\<rparr> True]"

definition demo_low_rating_details :: details where
  "demo_low_rating_details = demo_details\<lparr>rating := Some (29 / 10)\<rparr>"

definition demo_unrated_details :: details where
  "demo_unrated_details = demo_details\<lparr>rating := None\<rparr>"

definition demo_facebook_details :: details where
  "demo_facebook_details = demo_details\<lparr>website := Some ''https://facebook.com/glowspa''\<rparr>"

definition demo_facebook_world :: world where
  "demo_facebook_world = demo_world\<lparr>detail_resp := DetailOk (Some demo_facebook_details) None\<rparr>"

definition demo_site_world :: world where
  "demo_site_world = demo_world\<lparr>detail_resp := DetailOk (Some demo_site_details) None\<rparr>"

section \<open>Lemmas\<close>

subsection \<open>Traces\<close>

lemma appended_rows_append: "appended_rows (xs @ ys) = appended_rows xs @ appended_rows ys"
  by (induction xs rule: appended_rows.induct) auto

lemma forwarded_leads_append: "forwarded_leads (xs @ ys) = forwarded_leads xs @ forwarded_leads ys"
  by (induction xs rule: forwarded_leads.induct) auto

lemma append_attempts_append: "append_attempts (xs @ ys) = append_attempts xs @ append_attempts ys"
  by (induction xs rule: append_attempts.induct) auto

lemma appended_ids_append: "appended_ids (xs @ ys) = appended_ids xs @ appended_ids ys"
  by (simp add: appended_ids_def appended_rows_append)

lemma count_forwarded_append:
  "count_forwarded pid (xs @ ys) = count_forwarded pid xs + count_forwarded pid ys"
  by (simp add: count_forwarded_def forwarded_leads_append)

lemma contactProfile_inj: "contactProfile a = contactProfile b \<Longrightarrow> a = b"
  by (simp add: contactProfile_def)

lemma addToMainTable_part000_snd:
  "snd (addToMainTable_part000 w d) =
     (if \<not> truthy (website d) then [] else snd (isWebsiteLowBudget w (website d)))"
  by (cases "isWebsiteLowBudget w (website d)") (simp add: addToMainTable_part000_def)

lemma isWebsiteLowBudget_trace:
  "appended_rows (snd (isWebsiteLowBudget w u)) = []"
  "forwarded_leads (snd (isWebsiteLowBudget w u)) = []"
  "append_attempts (snd (isWebsiteLowBudget w u)) = []"
  by (simp_all add: isWebsiteLowBudget_def split: option.splits)

lemma addToMainTable_part000_trace:
  "appended_rows (snd (addToMainTable_part000 w d)) = []"
  "forwarded_leads (snd (addToMainTable_part000 w d)) = []"
  "append_attempts (snd (addToMainTable_part000 w d)) = []"
  by (simp_all add: addToMainTable_part000_snd isWebsiteLowBudget_trace)

subsection \<open>One hit\<close>

lemma process_place_index_effect:
  "process_place_index n c p w = (n', c', ev) \<Longrightarrow> effect (place_id p) c c' ev"
  unfolding process_place_index_def Let_def effect_def appended_ids_def
  by (auto split: option.splits if_splits prod.splits
      simp: isLoggedInSearchLogCached_def logBusinessSearch_def addToAirtable_def Let_def
        appended_rows_append forwarded_leads_append)

lemma process_place_index2_effect:
  "process_place_index2 n c p w = (n', c', ev) \<Longrightarrow> effect (place_id p) c c' ev"
  unfolding process_place_index2_def Let_def effect_def appended_ids_def
  by (auto split: option.splits if_splits prod.splits
      simp: isLoggedInSearchLogCached_def logBusinessSearch_def addToAirtable_def Let_def
        appended_rows_append forwarded_leads_append)

lemma process_place_part000_effect:
  "process_place_part000 n c p w = (n', c', ev) \<Longrightarrow> effect (place_id p) c c' ev"
  unfolding process_place_part000_def Let_def effect_def appended_ids_def
  using addToMainTable_part000_trace[of w "getPlaceDetails Part000 (detail_resp w)"]
  by (auto split: option.splits if_splits prod.splits
      simp: isLoggedInSearchLogCached_def logBusinessSearch_def addToAirtable_def Let_def
        appended_rows_append forwarded_leads_append)

lemma process_place_effect:
  "process_place v n c p w = (n', c', ev) \<Longrightarrow> effect (place_id p) c c' ev"
  by (cases v) (simp_all add: process_place_def process_place_index_effect
      process_place_index2_effect process_place_part000_effect)

text \<open>In the three files a forwarded lead is followed by the call of \<^verbatim>\<open>logBusinessSearch\<close>.\<close>

lemma process_place_index_marks:
  "process_place_index n c p w = (n', c', ev) \<Longrightarrow> forwarded_leads ev \<noteq> [] \<Longrightarrow>
     append_ok w \<Longrightarrow> place_id p \<in> c'"
  unfolding process_place_index_def Let_def
  by (auto split: option.splits if_splits prod.splits
      simp: isLoggedInSearchLogCached_def logBusinessSearch_def Let_def)

lemma process_place_index2_marks:
  "process_place_index2 n c p w = (n', c', ev) \<Longrightarrow> forwarded_leads ev \<noteq> [] \<Longrightarrow>
     append_ok w \<Longrightarrow> place_id p \<in> c'"
  unfolding process_place_index2_def Let_def
  by (auto split: option.splits if_splits prod.splits
      simp: isLoggedInSearchLogCached_def logBusinessSearch_def Let_def)

lemma process_place_part000_marks:
  "process_place_part000 n c p w = (n', c', ev) \<Longrightarrow> forwarded_leads ev \<noteq> [] \<Longrightarrow>
     append_ok w \<Longrightarrow> place_id p \<in> c'"
  unfolding process_place_part000_def Let_def
  by (auto split: option.splits if_splits prod.splits
      simp: isLoggedInSearchLogCached_def logBusinessSearch_def Let_def)

lemma process_place_marks:
  "process_place v n c p w = (n', c', ev) \<Longrightarrow> forwarded_leads ev \<noteq> [] \<Longrightarrow>
     append_ok w \<Longrightarrow> place_id p \<in> c'"
  by (cases v) (auto simp: process_place_def dest: process_place_index_marks
      process_place_index2_marks process_place_part000_marks)

subsection \<open>The cache only grows and guards the log\<close>

lemma grows_refl: "appended_rows ev = [] \<Longrightarrow> forwarded_leads ev = [] \<Longrightarrow> grows c c ev"
  by (simp add: grows_def appended_ids_def)

lemma grows_trans:
  assumes "grows c c' ev" and "grows c' c'' ev'"
  shows "grows c c'' (ev @ ev')"
proof -
  have sub: "c \<subseteq> c'" "c' \<subseteq> c''"
    using assms by (simp_all add: grows_def)
  have d1: "distinct (appended_ids ev)" and d2: "distinct (appended_ids ev')"
    using assms by (simp_all add: grows_def)
  have in1: "\<And>i. i \<in> set (appended_ids ev) \<Longrightarrow> i \<notin> c \<and> i \<in> c'"
    and in2: "\<And>i. i \<in> set (appended_ids ev') \<Longrightarrow> i \<notin> c' \<and> i \<in> c''"
    using assms by (simp_all add: grows_def)
  have f1: "\<And>l pid. l \<in> set (forwarded_leads ev) \<Longrightarrow> pid \<in> c \<Longrightarrow>
      contactProfileURL l \<noteq> contactProfile pid"
    and f2: "\<And>l pid. l \<in> set (forwarded_leads ev') \<Longrightarrow> pid \<in> c' \<Longrightarrow>
      contactProfileURL l \<noteq> contactProfile pid"
    using assms by (simp_all add: grows_def)
  have disj: "set (appended_ids ev) \<inter> set (appended_ids ev') = {}"
    using in1 in2 by blast
  have "distinct (appended_ids (ev @ ev'))"
    using d1 d2 disj by (simp add: appended_ids_append)
  moreover have "\<forall>i \<in> set (appended_ids (ev @ ev')). i \<notin> c \<and> i \<in> c''"
    using in1 in2 sub by (auto simp: appended_ids_append)
  moreover have "\<forall>l \<in> set (forwarded_leads (ev @ ev')). \<forall>pid \<in> c.
      contactProfileURL l \<noteq> contactProfile pid"
    using f1 f2 sub by (auto simp: forwarded_leads_append)
  ultimately show ?thesis
    using sub by (simp add: grows_def)
qed

lemma effect_grows: "effect pid c c' ev \<Longrightarrow> grows c c' ev"
  by (auto simp: effect_def grows_def dest: contactProfile_inj)

lemma places_loop_grows:
  "places_loop v n c hits = (c', ev) \<Longrightarrow> grows c c' ev"
proof (induction hits arbitrary: n c c' ev)
  case Nil
  then show ?case by (simp add: grows_refl)
next
  case (Cons pw rest)
  show ?case
  proof (cases "n \<ge> NEW_RESULTS_LIMIT v")
    case True
    then show ?thesis using Cons.prems by (simp add: grows_refl)
  next
    case False
    obtain n1 c1 ev1 where st: "process_place v n c (fst pw) (snd pw) = (n1, c1, ev1)"
      by (cases "process_place v n c (fst pw) (snd pw)") auto
    obtain c2 ev2 where lp: "places_loop v n1 c1 rest = (c2, ev2)"
      by (cases "places_loop v n1 c1 rest") auto
    have "c' = c2" "ev = ev1 @ ev2"
      using Cons.prems False st lp by simp_all
    moreover have "grows c c1 ev1"
      using st by (rule effect_grows[OF process_place_effect])
    moreover have "grows c1 c2 ev2"
      using lp by (rule Cons.IH)
    ultimately show ?thesis using grows_trans by blast
  qed
qed

lemma run_grows: "run v c bs = (c', ev) \<Longrightarrow> grows c c' ev"
proof (induction bs arbitrary: c c' ev)
  case Nil
  then show ?case by (simp add: grows_refl)
next
  case (Cons b bs)
  obtain c1 ev1 where lp: "places_loop v 0 c b = (c1, ev1)"
    by (cases "places_loop v 0 c b") auto
  obtain c2 ev2 where rn: "run v c1 bs = (c2, ev2)"
    by (cases "run v c1 bs") auto
  have "c' = c2" "ev = ev1 @ ev2"
    using Cons.prems lp rn by simp_all
  then show ?case
    using grows_trans[OF places_loop_grows[OF lp] Cons.IH[OF rn]] by simp
qed

lemma run_forwards_none_when_cached:
  "pid \<in> c \<Longrightarrow> count_forwarded pid (snd (run v c bs)) = 0"
proof -
  assume p: "pid \<in> c"
  obtain c' ev where rn: "run v c bs = (c', ev)"
    by (cases "run v c bs") auto
  have "grows c c' ev" using rn by (rule run_grows)
  then show ?thesis
    using p rn by (auto simp: grows_def count_forwarded_def filter_empty_conv)
qed

lemma distinct_map_filter_le1:
  "distinct (map f xs) \<Longrightarrow> length (filter (\<lambda>x. f x = a) xs) \<le> 1"
  by (induction xs) (auto simp: filter_empty_conv image_iff)

subsection \<open>At most one lead per id when its appends succeed\<close>

lemma forwards_once_refl: "forwarded_leads ev = [] \<Longrightarrow> forwards_once pid c c ev"
  by (simp add: forwards_once_def count_forwarded_def)

lemma forwards_once_trans:
  "forwards_once pid c c' ev \<Longrightarrow> forwards_once pid c' c'' ev' \<Longrightarrow>
     forwards_once pid c c'' (ev @ ev')"
  unfolding forwards_once_def count_forwarded_append by auto

lemma effect_forwards_once:
  assumes e: "effect q c c' ev"
    and m: "q = pid \<Longrightarrow> forwarded_leads ev \<noteq> [] \<Longrightarrow> pid \<in> c'"
  shows "forwards_once pid c c' ev"
proof -
  have sub: "c \<subseteq> c'" using e by (auto simp: effect_def)
  have le: "count_forwarded pid ev \<le> 1"
    using e order_trans[OF length_filter_le] by (auto simp: effect_def count_forwarded_def)
  have z: "pid \<in> c \<Longrightarrow> count_forwarded pid ev = 0"
    using e by (auto simp: effect_def count_forwarded_def filter_empty_conv dest: contactProfile_inj)
  have one: "count_forwarded pid ev = 1 \<Longrightarrow> pid \<in> c'"
  proof -
    assume a: "count_forwarded pid ev = 1"
    then obtain l where l: "l \<in> set (forwarded_leads ev)" "contactProfileURL l = contactProfile pid"
      unfolding count_forwarded_def
      by (metis (mono_tags, lifting) filter_empty_conv length_0_conv zero_neq_one)
    then have "q = pid" using e by (auto simp: effect_def dest: contactProfile_inj)
    moreover have "forwarded_leads ev \<noteq> []" using l by auto
    ultimately show ?thesis using m by simp
  qed
  show ?thesis using sub le z one by (simp add: forwards_once_def)
qed

lemma places_loop_forwards_once:
  "places_loop v n c hits = (c', ev) \<Longrightarrow> appends_succeed pid hits \<Longrightarrow> forwards_once pid c c' ev"
proof (induction hits arbitrary: n c c' ev)
  case Nil
  then show ?case by (simp add: forwards_once_refl)
next
  case (Cons pw rest)
  show ?case
  proof (cases "n \<ge> NEW_RESULTS_LIMIT v")
    case True
    then show ?thesis using Cons.prems by (simp add: forwards_once_refl)
  next
    case False
    obtain n1 c1 ev1 where st: "process_place v n c (fst pw) (snd pw) = (n1, c1, ev1)"
      by (cases "process_place v n c (fst pw) (snd pw)") auto
    obtain c2 ev2 where lp: "places_loop v n1 c1 rest = (c2, ev2)"
      by (cases "places_loop v n1 c1 rest") auto
    have eq: "c' = c2" "ev = ev1 @ ev2"
      using Cons.prems False st lp by simp_all
    have ok: "place_id (fst pw) = pid \<Longrightarrow> append_ok (snd pw)" and rest: "appends_succeed pid rest"
      using Cons.prems(2) by (simp_all add: appends_succeed_def)
    have "forwards_once pid c c1 ev1"
      using process_place_effect[OF st] process_place_marks[OF st] ok
      by (intro effect_forwards_once[of "place_id (fst pw)"]) auto
    moreover have "forwards_once pid c1 c2 ev2"
      using lp rest by (rule Cons.IH)
    ultimately show ?thesis using forwards_once_trans eq by blast
  qed
qed

lemma run_forwards_once:
  "run v c bs = (c', ev) \<Longrightarrow> list_all (appends_succeed pid) bs \<Longrightarrow> forwards_once pid c c' ev"
proof (induction bs arbitrary: c c' ev)
  case Nil
  then show ?case by (simp add: forwards_once_refl)
next
  case (Cons b bs)
  obtain c1 ev1 where lp: "places_loop v 0 c b = (c1, ev1)"
    by (cases "places_loop v 0 c b") auto
  obtain c2 ev2 where rn: "run v c1 bs = (c2, ev2)"
    by (cases "run v c1 bs") auto
  have eq: "c' = c2" "ev = ev1 @ ev2"
    using Cons.prems lp rn by simp_all
  have "forwards_once pid c c1 ev1"
    using places_loop_forwards_once[OF lp] Cons.prems(2) by simp
  moreover have "forwards_once pid c1 c2 ev2"
    using Cons.IH[OF rn] Cons.prems(2) by simp
  ultimately show ?case using forwards_once_trans eq by blast
qed

lemmas demo_defs = demo_place_def demo_details_def demo_world_def demo_run_def
  demo_closed_world_def demo_offline_world_def demo_hit_def demo_page1_def demo_page2_def
  demo_error_page_def demo_site_details_def demo_up_world_def

lemmas model_defs = process_place_def process_place_index_def process_place_index2_def
  process_place_part000_def getPlaceDetails_def addToMainTable_index2_def
  addToMainTable_part000_def isWebsiteLowBudget_def evaluateWebsiteQuality_index_def
  evaluateWebsiteQuality_index2_def logBusinessSearch_def addToAirtable_def isDuplicate_def
  isLoggedInSearchLogCached_def truthy_def js_or_def or_lit_def contactProfile_def
  MIN_REVIEWS_def MIN_RATING_def NEW_RESULTS_LIMIT_def Let_def

subsection \<open>searchPlaces\<close>

lemma search_loop_requests:
  "search_loop v rs m acc tok = Some (out, reqs) \<Longrightarrow> 0 < length reqs \<and> length reqs \<le> length rs"
  by (induction rs arbitrary: acc tok out reqs)
     (auto simp: Let_def split: response.splits if_splits option.splits)

lemma search_loop_result:
  "search_loop v rs m acc tok = Some (Inr hits, reqs) \<Longrightarrow>
     hits = take m (acc @ fetched rs (length reqs)) \<and>
     (\<forall>k. 0 < k \<and> k < length reqs \<longrightarrow> length (acc @ fetched rs k) < m)"
proof (induction rs arbitrary: acc tok hits reqs)
  case Nil
  then show ?case by simp
next
  case (Cons r rs)
  show ?case
  proof (cases r)
    case (RequestFailed msg)
    then show ?thesis using Cons.prems by (simp add: Let_def)
  next
    case (Response pg)
    show ?thesis
    proof (cases "truthy (next_page_token pg) \<and> length (acc @ page_results pg) < m")
      case False
      then show ?thesis
        using Cons.prems Response
        by (auto simp: Let_def fetched_def split: if_splits)
    next
      case True
      then obtain reqs' where rec: "search_loop v rs m (acc @ page_results pg) (next_page_token pg) = Some (Inr hits, reqs')"
        and reqs: "reqs = (if truthy tok then tok else None) # reqs'"
        using Cons.prems Response
        by (auto simp: Let_def split: if_splits option.splits)
      have ih: "hits = take m ((acc @ page_results pg) @ fetched rs (length reqs'))"
        "\<And>k. 0 < k \<Longrightarrow> k < length reqs' \<Longrightarrow> length ((acc @ page_results pg) @ fetched rs k) < m"
        using Cons.IH[OF rec] by auto
      have f: "\<And>k. fetched (r # rs) (Suc k) = page_results pg @ fetched rs k"
        by (simp add: fetched_def Response)
      have "hits = take m (acc @ fetched (r # rs) (length reqs))"
        using ih(1) by (simp add: reqs f)
      moreover have "\<forall>k. 0 < k \<and> k < length reqs \<longrightarrow> length (acc @ fetched (r # rs) k) < m"
      proof (intro allI impI)
        fix k assume k: "0 < k \<and> k < length reqs"
        then obtain j where j: "k = Suc j" by (cases k) auto
        show "length (acc @ fetched (r # rs) k) < m"
        proof (cases j)
          case 0
          then show ?thesis using True j by (simp add: f fetched_def Response)
        next
          case (Suc i)
          then have "0 < j" "j < length reqs'" using k j reqs by auto
          then show ?thesis using ih(2)[of j] j by (simp add: f)
        qed
      qed
      ultimately show ?thesis by blast
    qed
  qed
qed

lemma search_loop_error:
  "search_loop Part000 rs m acc tok = Some (out, reqs) \<Longrightarrow> k < length reqs \<Longrightarrow>
   rs ! k = Response pg \<Longrightarrow> error_message pg = Some msg \<Longrightarrow> msg \<noteq> [] \<Longrightarrow> out = Inl msg"
proof (induction rs arbitrary: acc tok reqs k)
  case Nil
  then show ?case by simp
next
  case (Cons r rs)
  show ?case
  proof (cases k)
    case 0
    then show ?thesis using Cons.prems by (simp add: Let_def truthy_def or_lit_def)
  next
    case (Suc j)
    then have "1 < length reqs" using Cons.prems by simp
    then obtain pg0 reqs' where "r = Response pg0" 
      "search_loop Part000 rs m (acc @ page_results pg0) (next_page_token pg0) = Some (out, reqs')"
      "length reqs = Suc (length reqs')"
      using Cons.prems(1)
      by (auto simp: Let_def split: response.splits if_splits option.splits)
    then show ?thesis using Cons.IH[of _ _ reqs' j] Cons.prems Suc by auto
  qed
qed

lemma search_loop_returns:
  "list_ex stops rs \<Longrightarrow> search_loop v rs m acc tok \<noteq> None"
proof (induction rs arbitrary: acc tok)
  case Nil
  then show ?case by simp
next
  case (Cons r rs)
  show ?case
  proof (cases r)
    case (RequestFailed e)
    then show ?thesis by (simp add: Let_def)
  next
    case (Response pg)
    show ?thesis
    proof (cases "truthy (next_page_token pg)")
      case False
      then show ?thesis using Response by (simp add: Let_def)
    next
      case True
      then have "list_ex stops rs" using Cons.prems Response by simp
      then obtain out reqs where "search_loop v rs m (acc @ page_results pg)
          (next_page_token pg) = Some (out, reqs)"
        using Cons.IH[of "acc @ page_results pg" "next_page_token pg"] by auto
      then show ?thesis using Response by (simp add: Let_def)
    qed
  qed
qed

lemma search_loop_returns_on_error:
  "k < length rs \<Longrightarrow> rs ! k = Response pg \<Longrightarrow> truthy (error_message pg) \<Longrightarrow>
     search_loop Part000 rs m acc tok \<noteq> None"
proof (induction rs arbitrary: acc tok k)
  case Nil
  then show ?case by simp
next
  case (Cons r rs)
  show ?case
  proof (cases k)
    case 0
    then show ?thesis using Cons.prems by (simp add: Let_def)
  next
    case (Suc j)
    then have "j < length rs" "rs ! j = Response pg" using Cons.prems by simp_all
    then have ih: "\<And>acc tok. search_loop Part000 rs m acc tok \<noteq> None"
      using Cons.IH Cons.prems(3) by blast
    show ?thesis
    proof (cases r)
      case (RequestFailed e)
      then show ?thesis by (simp add: Let_def)
    next
      case (Response pg0)
      obtain out reqs where "search_loop Part000 rs m (acc @ page_results pg0)
          (next_page_token pg0) = Some (out, reqs)"
        using ih[of "acc @ page_results pg0" "next_page_token pg0"] by auto
      then show ?thesis using Response by (simp add: Let_def)
    qed
  qed
qed

subsection \<open>Qualification\<close>

lemma website_rule_index2_code:
  "(evaluateWebsiteQuality_index2 (website d) = ''No Website'') = website_rule_index2 d"
  by (simp add: evaluateWebsiteQuality_index2_def website_rule_index2_def split: option.splits)

lemma website_rule_part000_code:
  "(\<not> truthy (website d) \<or> fst (isWebsiteLowBudget w (website d))) = website_rule_part000 w d"
  by (auto simp: isWebsiteLowBudget_def website_rule_part000_def low_content_def
      freePlatforms_def truthy_def split: option.splits)

text \<open>
  What line 166 of part_000 makes of parsed bodies: the body \<^verbatim>\<open>{}\<close> is an object
  without a length and is not low budget, however short; a JSON array of three elements
  is low budget, however long its text; a page of 2000 characters that is not JSON is not
  low budget, one of 1999 is.
\<close>

lemma isWebsiteLowBudget_parsed_bodies:
  "fst (isWebsiteLowBudget (demo_world\<lparr>site_fetch := Some (DataObject NoLength)\<rparr>)
     (Some ''https://glowspa.example'')) = False"
  "fst (isWebsiteLowBudget (demo_world\<lparr>site_fetch := Some (DataArray 3)\<rparr>)
     (Some ''https://glowspa.example'')) = True"
  "fst (isWebsiteLowBudget
     (demo_world\<lparr>site_fetch := Some (DataString (replicate 2000 (CHR ''x'')))\<rparr>)
     (Some ''https://glowspa.example'')) = False"
  "fst (isWebsiteLowBudget
     (demo_world\<lparr>site_fetch := Some (DataString (replicate 1999 (CHR ''x'')))\<rparr>)
     (Some ''https://glowspa.example'')) = True"
  by (simp_all add: isWebsiteLowBudget_def freePlatforms_def demo_world_def)


lemma addToMainTable_index2_iff:
  "addToMainTable_index2 d \<longleftrightarrow>
     website_rule_index2 d \<and> activity_rule Index2 d \<and> popularity_rule Index2 d \<and> rating_rule d"
  unfolding website_rule_index2_code[symmetric]
  by (auto simp: addToMainTable_index2_def activity_rule_def
      popularity_rule_def rating_rule_def MIN_REVIEWS_def MIN_RATING_def Let_def
      split: option.splits)

lemma addToMainTable_part000_iff:
  "fst (addToMainTable_part000 w d) \<longleftrightarrow>
     website_rule_part000 w d \<and> activity_rule Part000 d \<and> popularity_rule Part000 d \<and>
     rating_rule d"
  unfolding website_rule_part000_code[symmetric]
  by (cases "isWebsiteLowBudget w (website d)")
    (auto simp: addToMainTable_part000_def activity_rule_def
      popularity_rule_def rating_rule_def MIN_REVIEWS_def MIN_RATING_def Let_def
      split: option.splits)


lemma process_place_index_forwards_iff:
  assumes "process_place_index n c p w = (n', c', ev)"
  shows "forwarded_leads ev \<noteq> [] \<longleftrightarrow>
     complete_index p (getPlaceDetails Index (detail_resp w)) \<and>
     \<not> isLoggedInSearchLogCached c (place_id p) \<and>
     activity_rule Index (getPlaceDetails Index (detail_resp w)) \<and>
     contactability_rule (getPlaceDetails Index (detail_resp w)) \<and>
     popularity_rule Index (getPlaceDetails Index (detail_resp w))"
proof -
  define d where "d = getPlaceDetails Index (detail_resp w)"
  have pop: "popularity_rule Index d \<longleftrightarrow>
      \<not> (case user_ratings_total d of None \<Rightarrow> 0 | Some n \<Rightarrow> n) < 5"
    by (auto simp: popularity_rule_def MIN_REVIEWS_def split: option.splits)
  have con: "contactability_rule d \<longleftrightarrow> truthy (js_or (website d) (formatted_phone_number d))"
    by (simp add: contactability_rule_def js_or_def)
  have act: "activity_rule Index d \<longleftrightarrow> business_status d = Some ''OPERATIONAL''"
    by (simp add: activity_rule_def)
  have com: "complete_index p d \<longleftrightarrow>
      (\<exists>b. js_or (name d) (place_name p) = Some b \<and> b \<noteq> []) \<and>
      or_lit (formatted_address d) [] \<noteq> [] \<and> place_id p \<noteq> []"
    by (cases "js_or (name d) (place_name p)") (simp_all add: complete_index_def truthy_def)
  show ?thesis
    using assms unfolding d_def[symmetric] pop con act com
    unfolding process_place_index_def Let_def d_def[symmetric]
    by (cases "js_or (name d) (place_name p)")
      (auto split: if_splits prod.splits
        simp: addToAirtable_def forwarded_leads_append)
qed



lemma process_place_index_quality:
  assumes "process_place_index n c p w = (n', c', ev)" and "l \<in> set (forwarded_leads ev)"
  shows "websiteQuality l =
     Some (evaluateWebsiteQuality_index (website (getPlaceDetails Index (detail_resp w))))"
  using assms unfolding process_place_index_def Let_def
  by (auto split: option.splits if_splits prod.splits
      simp: addToAirtable_def forwarded_leads_append logBusinessSearch_def Let_def)

lemma evaluateWebsiteQuality_index_classes:
  "evaluateWebsiteQuality_index u \<in> {''No Website'', ''Poor'', ''Decent''}"
  by (simp add: evaluateWebsiteQuality_index_def split: option.splits)

lemmas rule_defs = website_rule_index2_def website_rule_part000_def activity_rule_def
  popularity_rule_def rating_rule_def contactability_rule_def complete_index_def

lemma image_all_same: "xs \<noteq> [] \<Longrightarrow> \<forall>x \<in> set xs. f x = a \<Longrightarrow> f ` set xs = {a}"
  by (cases xs) auto

lemma demo_classes:
  "evaluateWebsiteQuality_index (website demo_details) = ''No Website''"
  "evaluateWebsiteQuality_index (website demo_facebook_details) = ''Poor''"
  "evaluateWebsiteQuality_index (website demo_site_details) = ''Decent''"
  by (simp_all add: evaluateWebsiteQuality_index_def demo_details_def demo_facebook_details_def
      demo_site_details_def)

subsection \<open>Rounding to a double\<close>

lemma floor_rat_numeral_div:
  "\<lfloor>numeral a / numeral b :: rat\<rfloor> = numeral a div numeral b"
  "\<lfloor>- (numeral a / numeral b) :: rat\<rfloor> = - numeral a div numeral b"
  by (metis floor_divide_of_int_eq of_int_numeral)
     (metis divide_minus_left floor_divide_of_int_eq of_int_neg_numeral of_int_numeral)

lemmas double_eval = to_double_def ulp_exp_def ilog2_def log2_down.simps log2_up.simps
  round_even_def Let_def floor_rat_numeral_div

text \<open>
  The rounding agrees with the doubles every JavaScript engine prints: 0.1 is
  3602879701896397 / 2 ^ 55, and 0.1 + 0.2 is 0.30000000000000004, one unit in the last
  place above the double of 0.3.
\<close>

lemma double_examples:
  "to_double (1 / 10) = Num (3602879701896397 / 36028797018963968)"
  "js_add (to_double (1 / 10)) (to_double (2 / 10)) = Num (1351079888211149 / 4503599627370496)"
  "to_double (3 / 10) = Num (5404319552844595 / 18014398509481984)"
  by (simp_all add: double_eval)

lemma log2_up_le: "1 \<le> q \<Longrightarrow> 2 powi (log2_up q) \<le> q"
proof (induction q rule: log2_up.induct)
  case (1 q)
  show ?case
  proof (cases "q < 2")
    case True
    then show ?thesis using "1.prems" by (simp add: log2_up.simps)
  next
    case False
    then have "2 powi (log2_up (q / 2)) \<le> q / 2"
      using "1.IH" by simp
    moreover have "log2_up q = 1 + log2_up (q / 2)"
      using False by (subst log2_up.simps) simp
    ultimately show ?thesis
      by (simp add: power_int_add)
  qed
qed

lemma log2_down_le: "0 < q \<Longrightarrow> q < 1 \<Longrightarrow> 2 powi (log2_down q) \<le> q"
proof (induction q rule: log2_down.induct)
  case (1 q)
  have eq: "log2_down q = log2_down (2 * q) - 1"
    using "1.prems" by (subst log2_down.simps) simp
  show ?case
  proof (cases "1 \<le> 2 * q")
    case True
    then have "log2_down (2 * q) = 0" by (subst log2_down.simps) simp
    then show ?thesis using True eq by (simp add: power_int_minus)
  next
    case False
    then have "2 powi (log2_down (2 * q)) \<le> 2 * q"
      using "1.IH" "1.prems" by simp
    then show ?thesis
      unfolding eq by (simp add: power_int_diff)
  qed
qed

lemma ilog2_le: "0 < q \<Longrightarrow> 2 powi (ilog2 q) \<le> q"
  by (simp add: ilog2_def log2_up_le log2_down_le)

lemma ilog2_less: "0 < q \<Longrightarrow> q < 2 powi n \<Longrightarrow> ilog2 q < n"
proof (rule ccontr)
  assume q: "0 < q" "q < 2 powi n" and "\<not> ilog2 q < n"
  then have "n \<le> ilog2 q" by simp
  then have "(2::rat) powi n \<le> 2 powi (ilog2 q)"
    by (intro power_int_increasing) simp_all
  then show False using ilog2_le[OF q(1)] q(2) by simp
qed

lemma round_even_error: "\<bar>of_int (round_even x) - x\<bar> \<le> 1 / 2"
proof -
  have b: "of_int \<lfloor>x\<rfloor> \<le> x" "x < of_int \<lfloor>x\<rfloor> + 1"
    by linarith+
  consider "x - of_int \<lfloor>x\<rfloor> < 1 / 2" | "1 / 2 < x - of_int \<lfloor>x\<rfloor>"
    | "x - of_int \<lfloor>x\<rfloor> = 1 / 2"
    by linarith
  then show ?thesis
  proof cases
    case 1
    then have "round_even x = \<lfloor>x\<rfloor>" by (simp add: round_even_def Let_def)
    then show ?thesis using 1 b by simp
  next
    case 2
    then have "round_even x = \<lfloor>x\<rfloor> + 1" by (simp add: round_even_def Let_def)
    then show ?thesis using 2 b by simp
  next
    case 3
    then have "round_even x = \<lfloor>x\<rfloor> \<or> round_even x = \<lfloor>x\<rfloor> + 1"
      by (simp add: round_even_def Let_def)
    then show ?thesis using 3 b by auto
  qed
qed

lemma to_double_error:
  assumes "\<bar>q\<bar> < 256"
  shows "\<exists>r. to_double q = Num r \<and> \<bar>r - q\<bar> \<le> 2 powi (- 46)"
proof (cases "q = 0")
  case True
  then show ?thesis by (simp add: to_double_def)
next
  case False
  define e where "e = ulp_exp q"
  define r where "r = of_int (round_even (q / 2 powi e)) * (2::rat) powi e"
  have pos: "(0::rat) < 2 powi e" by simp
  have "0 < \<bar>q\<bar>" using False by simp
  moreover have "\<bar>q\<bar> < 2 powi 8" using assms by simp
  ultimately have "ilog2 \<bar>q\<bar> < 8" by (rule ilog2_less)
  then have e: "e \<le> - 45" by (simp add: e_def ulp_exp_def)
  have "\<bar>r - q\<bar> = \<bar>of_int (round_even (q / 2 powi e)) - q / 2 powi e\<bar> * 2 powi e"
  proof -
    have "r - q = (of_int (round_even (q / 2 powi e)) - q / 2 powi e) * 2 powi e"
      using pos by (simp add: r_def field_simps)
    then show ?thesis using pos by (simp add: abs_mult)
  qed
  also have "\<dots> \<le> (1 / 2) * 2 powi e"
    using round_even_error pos by (intro mult_right_mono) simp_all
  also have "\<dots> = 2 powi (e - 1)"
    by (simp add: power_int_diff)
  also have "\<dots> \<le> 2 powi (- 46)"
    using e by (intro power_int_increasing) simp_all
  finally have err: "\<bar>r - q\<bar> \<le> 2 powi (- 46)" .
  have "(2::rat) powi (- 46) \<le> 1" by simp
  then have "\<bar>r\<bar> < 257" using err assms by linarith
  moreover have "(257::rat) \<le> 2 powi 1024" by simp
  ultimately have "\<not> 2 powi 1024 \<le> \<bar>r\<bar>" by linarith
  then have "to_double q = Num r"
    using False by (simp add: to_double_def Let_def e_def r_def)
  then show ?thesis using err by blast
qed

lemma searchGridOffset_value:
  "searchGridOffset = Num (1080863910568919 / 36028797018963968)"
  by (simp add: searchGridOffset_def double_eval)

lemma offset_bounds:
  "\<exists>d. searchGridOffset = Num d \<and> js_neg searchGridOffset = Num (- d) \<and>
       \<bar>d - 3 / 100\<bar> \<le> 2 powi (- 46)"
proof -
  have "\<bar>1080863910568919 / 36028797018963968 - 3 / 100 :: rat\<bar> \<le> 2 powi (- 46)"
    by simp
  then show ?thesis
    by (intro exI[of _ "1080863910568919 / 36028797018963968"]) (simp add: searchGridOffset_value)
qed

lemma shifted:
  assumes "\<bar>a\<bar> \<le> 180" and "\<bar>d - 3 / 100\<bar> \<le> 2 powi (- 46)"
  shows "\<exists>a1 a2. to_double (a + d) = Num a1 \<and> to_double (a + - d) = Num a2 \<and>
           \<bar>a1 - (a + 3 / 100)\<bar> \<le> 2 powi (- 45) \<and> \<bar>a2 - (a - 3 / 100)\<bar> \<le> 2 powi (- 45)"
proof -
  have small: "(2::rat) powi (- 46) \<le> 1" by simp
  have d: "\<bar>d\<bar> \<le> 2" using assms(2) small by linarith
  have "\<bar>a + d\<bar> < 256" "\<bar>a + - d\<bar> < 256" using assms(1) d by linarith+
  then obtain a1 a2 where r: "to_double (a + d) = Num a1" "\<bar>a1 - (a + d)\<bar> \<le> 2 powi (- 46)"
    "to_double (a + - d) = Num a2" "\<bar>a2 - (a + - d)\<bar> \<le> 2 powi (- 46)"
    using to_double_error by blast
  have two: "(2::rat) powi (- 46) + 2 powi (- 46) = 2 powi (- 45)" by simp
  have "\<bar>a1 - (a + 3 / 100)\<bar> \<le> 2 powi (- 45)" "\<bar>a2 - (a - 3 / 100)\<bar> \<le> 2 powi (- 45)"
    using r(2,4) assms(2) two by linarith+
  then show ?thesis using r(1,3) by blast
qed

text \<open>
  Far from every coordinate the offset is lost in the rounding: at latitude \<open>10 ^ 20\<close>
  the first three points coincide. The bounds on latitude and longitude in the claim
  about \<open>generateCityGrid\<close> below are those of a geographic coordinate.
\<close>

lemma generateCityGrid_far_out:
  "generateCityGrid (Num 100000000000000000000, Num 0) =
     [(Num 100000000000000000000, Num 0), (Num 100000000000000000000, Num 0),
      (Num 100000000000000000000, Num 0),
      (Num 100000000000000000000, Num (1080863910568919 / 36028797018963968)),
      (Num 100000000000000000000, Num (- (1080863910568919 / 36028797018963968)))]"
  by (simp add: generateCityGrid_def js_sub_def searchGridOffset_value double_eval)

section \<open>Claims about the orchestrator\<close>

text \<open>
  C1: in one run, for every entityId, at most one row carrying it is appended to the
  external log; at most one lead with that entityId is forwarded to the record store
  while the entityId is in the DedupCache, that is in a run or a rest of a run that starts
  with it cached (\<open>run_forwards_none_when_cached\<close>: none is); and over the whole run at
  most one lead with that entityId is forwarded when the log appends for it succeed,
  which is what puts the entityId into the cache.
\<close>

theorem run_logs_and_forwards_at_most_once:
  "count_appended pid (snd (run v c bs)) \<le> 1 \<and>
   (pid \<in> c \<longrightarrow> count_forwarded pid (snd (run v c bs)) \<le> 1) \<and>
   (list_all (appends_succeed pid) bs \<longrightarrow> count_forwarded pid (snd (run v c bs)) \<le> 1)"
proof -
  obtain c' ev where rn: "run v c bs = (c', ev)"
    by (cases "run v c bs") auto
  have g: "grows c c' ev" using rn by (rule run_grows)
  have "distinct (map row_placeId (appended_rows ev))"
    using g by (simp add: grows_def appended_ids_def)
  then have a: "count_appended pid ev \<le> 1"
    unfolding count_appended_def by (rule distinct_map_filter_le1)
  have b: "pid \<in> c \<Longrightarrow> count_forwarded pid ev = 0"
    using g by (auto simp: grows_def count_forwarded_def filter_empty_conv)
  have d: "list_all (appends_succeed pid) bs \<Longrightarrow> count_forwarded pid ev \<le> 1"
    using run_forwards_once[OF rn] by (simp add: forwards_once_def)
  show ?thesis using a b d rn by auto
qed

text \<open>
  A run of index2.js over a bucket that holds the same hit twice, once from a cache that
  already has the id and once from an empty cache.
\<close>

theorem run_logs_and_forwards_at_most_once_witness:
  "''p1'' \<in> {''p1''} \<and> list_all (appends_succeed ''p1'') demo_run \<and>
   count_appended ''p1'' (snd (run Index2 {''p1''} demo_run)) \<le> 1 \<and>
   count_forwarded ''p1'' (snd (run Index2 {''p1''} demo_run)) \<le> 1 \<and>
   count_forwarded ''p1'' (snd (run Index2 {} demo_run)) \<le> 1 \<and>
   count_appended ''p1'' (snd (run Index2 {} demo_run)) = 1 \<and>
   count_forwarded ''p1'' (snd (run Index2 {} demo_run)) = 1"
proof -
  have h: "list_all (appends_succeed ''p1'') demo_run"
    by (simp add: appends_succeed_def demo_defs)
  have e: "count_appended ''p1'' (snd (run Index2 {} demo_run)) = 1 \<and>
      count_forwarded ''p1'' (snd (run Index2 {} demo_run)) = 1"
    by (simp add: demo_defs model_defs count_appended_def count_forwarded_def)
  show ?thesis
    using h e run_logs_and_forwards_at_most_once[of "''p1''" Index2 "{''p1''}" demo_run]
      run_logs_and_forwards_at_most_once[of "''p1''" Index2 "{}" demo_run]
    by simp
qed

text \<open>
  A hit whose id is cached is not skipped entirely: in the three files the loop calls
  \<^verbatim>\<open>getPlaceDetails\<close> before it tests the cache, so the detail request is made.
\<close>

theorem cached_hit_is_still_enriched:
  "isLoggedInSearchLogCached {''p1''} (place_id demo_place) \<and>
   places_loop Index 0 {''p1''} [(demo_place, demo_world)] = ({''p1''}, [GetDetails ''p1'']) \<and>
   places_loop Index2 0 {''p1''} [(demo_place, demo_world)] = ({''p1''}, [GetDetails ''p1'']) \<and>
   places_loop Part000 0 {''p1''} [(demo_place, demo_world)] = ({''p1''}, [GetDetails ''p1''])"
  by (simp add: demo_defs model_defs)

text \<open>
  C2, as the code has it: for every hit whose entityId is in the DedupCache when the
  orchestrator reaches it, the orchestrator makes the detail-enrichment call and nothing
  else: no website fetch, no record-store call, no log append, and the cache and
  \<^verbatim>\<open>newCount\<close> are unchanged; the loop goes on with the next hit.
\<close>

theorem cached_hit_only_enriched:
  assumes "isLoggedInSearchLogCached c (place_id p)"
  shows "process_place v n c p w = (n, c, [GetDetails (place_id p)]) \<and>
         (n < NEW_RESULTS_LIMIT v \<longrightarrow>
            places_loop v n c ((p, w) # rest) =
              (fst (places_loop v n c rest),
               GetDetails (place_id p) # snd (places_loop v n c rest)))"
proof -
  have one: "process_place v n c p w = (n, c, [GetDetails (place_id p)])"
    using assms
    by (cases v)
      (simp_all add: process_place_def process_place_index_def process_place_index2_def
        process_place_part000_def Let_def split: option.splits)
  then have "n < NEW_RESULTS_LIMIT v \<longrightarrow>
      places_loop v n c ((p, w) # rest) =
        (fst (places_loop v n c rest), GetDetails (place_id p) # snd (places_loop v n c rest))"
    by (cases "places_loop v n c rest") simp
  then show ?thesis using one by blast
qed

text \<open>The hit \<open>p1\<close> met by part_000 with \<open>p1\<close> cached, alone in its bucket.\<close>

theorem cached_hit_only_enriched_witness:
  "isLoggedInSearchLogCached {''p1''} (place_id demo_place) \<and>
   process_place Part000 0 {''p1''} demo_place demo_world = (0, {''p1''}, [GetDetails ''p1'']) \<and>
   0 < NEW_RESULTS_LIMIT Part000 \<and>
   places_loop Part000 0 {''p1''} [(demo_place, demo_world)] = ({''p1''}, [GetDetails ''p1''])"
proof -
  have h: "isLoggedInSearchLogCached {''p1''} (place_id demo_place)"
    by (simp add: isLoggedInSearchLogCached_def demo_place_def)
  have l: "0 < NEW_RESULTS_LIMIT Part000"
    by (simp add: NEW_RESULTS_LIMIT_def)
  show ?thesis
    using h l cached_hit_only_enriched[OF h, of Part000 0 demo_world "[]"]
    by (simp add: demo_place_def)
qed

text \<open>
  In index.js a hit that fails a filter leaves the loop body through \<^verbatim>\<open>continue\<close>
  before \<^verbatim>\<open>logBusinessSearch\<close>: a permanently closed business is neither appended to
  the log nor marked in the cache, although the append would succeed.
\<close>

theorem index_rejected_hit_not_logged:
  "\<not> isLoggedInSearchLogCached {} (place_id demo_place) \<and> append_ok demo_closed_world \<and>
   process_place Index 0 {} demo_place demo_closed_world = (0, {}, [GetDetails ''p1''])"
  by (simp add: demo_defs model_defs)

text \<open>
  C3, as the code has it: for every processed hit whose entityId is not in the
  DedupCache, index2.js and part_000 send one row with the entityId to the external log
  after qualification, whether the hit was admitted or rejected, and when that append
  succeeds the row is in the log and the entityId is in the cache; index.js does so
  exactly for the hits it forwards, and leaves cache and log untouched for the hits it
  rejects.
\<close>

theorem hit_logged_after_qualification:
  assumes "\<not> isLoggedInSearchLogCached c (place_id p)"
    and "process_place v n c p w = (n', c', ev)"
  shows "(v \<noteq> Index \<or> forwarded_leads ev \<noteq> [] \<longrightarrow>
            map row_placeId (append_attempts ev) = [place_id p] \<and>
            (append_ok w \<longrightarrow> place_id p \<in> c' \<and> appended_ids ev = [place_id p])) \<and>
         (v = Index \<and> forwarded_leads ev = [] \<longrightarrow> c' = c \<and> append_attempts ev = [])"
proof (cases v)
  case Index
  then show ?thesis
    using assms unfolding process_place_def process_place_index_def Let_def appended_ids_def
    by (auto split: option.splits if_splits prod.splits
      simp: isLoggedInSearchLogCached_def logBusinessSearch_def addToAirtable_def Let_def
        appended_rows_append forwarded_leads_append append_attempts_append)
next
  case Index2
  then show ?thesis
    using assms unfolding process_place_def process_place_index2_def Let_def appended_ids_def
    by (auto split: option.splits if_splits prod.splits
      simp: isLoggedInSearchLogCached_def logBusinessSearch_def addToAirtable_def Let_def
        appended_rows_append forwarded_leads_append append_attempts_append)
next
  case Part000
  then show ?thesis
    using assms addToMainTable_part000_trace[of w "getPlaceDetails Part000 (detail_resp w)"]
    unfolding process_place_def process_place_part000_def Let_def appended_ids_def
    by (auto split: option.splits if_splits prod.splits
      simp: isLoggedInSearchLogCached_def logBusinessSearch_def addToAirtable_def Let_def
        appended_rows_append forwarded_leads_append append_attempts_append)
qed

text \<open>
  A permanently closed business that is not cached: index2.js logs and marks it,
  index.js does neither.
\<close>

theorem hit_logged_after_qualification_witness:
  "\<not> isLoggedInSearchLogCached {} (place_id demo_place) \<and>
   process_place Index2 0 {} demo_place demo_closed_world = (0, {''p1''}, demo_closed_trace) \<and>
   forwarded_leads demo_closed_trace = [] \<and> append_ok demo_closed_world \<and>
   map row_placeId (append_attempts demo_closed_trace) = [place_id demo_place] \<and>
   place_id demo_place \<in> {''p1''} \<and> appended_ids demo_closed_trace = [place_id demo_place] \<and>
   process_place Index 0 {} demo_place demo_closed_world = (0, {}, [GetDetails ''p1'']) \<and>
   forwarded_leads [GetDetails ''p1''] = [] \<and> append_attempts [GetDetails ''p1''] = []"
proof -
  have h: "\<not> isLoggedInSearchLogCached {} (place_id demo_place)"
    by (simp add: isLoggedInSearchLogCached_def)
  have r: "process_place Index2 0 {} demo_place demo_closed_world =
      (0, {''p1''}, demo_closed_trace)"
    by (simp add: demo_defs model_defs demo_closed_trace_def)
  have f: "forwarded_leads demo_closed_trace = []"
    by (simp add: demo_closed_trace_def)
  have a: "append_ok demo_closed_world"
    by (simp add: demo_closed_world_def demo_world_def)
  have "Index2 \<noteq> Index \<or> forwarded_leads demo_closed_trace \<noteq> []"
    by simp
  then have "map row_placeId (append_attempts demo_closed_trace) = [place_id demo_place] \<and>
      place_id demo_place \<in> {''p1''} \<and> appended_ids demo_closed_trace = [place_id demo_place]"
    using hit_logged_after_qualification[OF h r] a by blast
  moreover have r1: "process_place Index 0 {} demo_place demo_closed_world =
      (0, {}, [GetDetails ''p1''])"
    by (simp add: demo_defs model_defs)
  moreover have "append_attempts [GetDetails ''p1''] = []"
    using hit_logged_after_qualification[OF h r1] by simp
  ultimately show ?thesis using h r f a by simp
qed

text \<open>
  C9: when the append inside \<^verbatim>\<open>logBusinessSearch\<close> fails, the seen-set is unchanged: the
  id is added only after a successful append, so after a failed append the id is still
  not cached and the entity stays eligible for processing.
\<close>

theorem logBusinessSearch_failed_append_keeps_cache:
  "\<not> append_ok w \<Longrightarrow>
     fst (logBusinessSearch w existingPlaceIds bName address placeId) = existingPlaceIds \<and>
     (\<not> isLoggedInSearchLogCached existingPlaceIds placeId \<longrightarrow>
        snd (logBusinessSearch w existingPlaceIds bName address placeId) =
          [SheetsAppend \<lparr>row_name = bName, row_address = address, row_date = today w,
             row_placeId = placeId\<rparr> False] \<and>
        \<not> isLoggedInSearchLogCached
            (fst (logBusinessSearch w existingPlaceIds bName address placeId)) placeId)"
  by (simp add: logBusinessSearch_def Let_def)

text \<open>The sheet is unreachable while \<open>p1\<close> is logged into an empty cache.\<close>

theorem logBusinessSearch_failed_append_keeps_cache_witness:
  "\<not> append_ok demo_offline_world \<and> \<not> isLoggedInSearchLogCached {} ''p1'' \<and>
   logBusinessSearch demo_offline_world {} ''Glow Spa'' ''1 Main St'' ''p1'' =
     ({}, [SheetsAppend \<lparr>row_name = ''Glow Spa'', row_address = ''1 Main St'',
        row_date = ''2025-01-01'', row_placeId = ''p1''\<rparr> False])"
proof -
  have h: "\<not> append_ok demo_offline_world"
    by (simp add: demo_offline_world_def)
  show ?thesis
    using h logBusinessSearch_failed_append_keeps_cache[OF h, of "{}" "''Glow Spa''"
        "''1 Main St''" "''p1''"]
    by (simp add: isLoggedInSearchLogCached_def demo_offline_world_def demo_world_def
        prod_eq_iff)
qed

section \<open>Claims about \<^verbatim>\<open>searchPlaces\<close>\<close>

text \<open>
  index.js and index2.js never read \<^verbatim>\<open>error_message\<close>: a second page that carries an
  error payload ends the loop and the hits of the first page are returned.
\<close>

theorem index_search_ignores_error_payload:
  "truthy (error_message demo_error_page) \<and>
   searchPlaces Index [Response demo_page1, Response demo_error_page] 60 =
     Some (Inr [demo_hit ''a'', demo_hit ''b''], [None, Some ''t1'']) \<and>
   searchPlaces Index2 [Response demo_page1, Response demo_error_page] 60 =
     Some (Inr [demo_hit ''a'', demo_hit ''b''], [None, Some ''t1''])"
  by (simp add: searchPlaces_def demo_defs truthy_def page_results_def Let_def)

text \<open>
  C4, as the code has it: in part_000, for every maxResults, a search whose answers hold
  a page with an explicit error payload returns, and when that page is among the pages it
  fetched the whole call fails with an error carrying the upstream message instead of
  returning the hits accumulated so far. (index.js and index2.js ignore the payload.)
\<close>

theorem part000_search_fails_on_error_payload:
  assumes "k < length rs" and "rs ! k = Response pg"
    and "error_message pg = Some msg" and "msg \<noteq> []"
  shows "\<exists>out reqs. searchPlaces Part000 rs m = Some (out, reqs) \<and>
           (k < length reqs \<longrightarrow> out = Inl msg)"
proof -
  have "truthy (error_message pg)" using assms(3,4) by (simp add: truthy_def)
  then have "search_loop Part000 rs m [] None \<noteq> None"
    using search_loop_returns_on_error[OF assms(1,2)] by blast
  then obtain out reqs where r: "search_loop Part000 rs m [] None = Some (out, reqs)"
    by (cases "search_loop Part000 rs m [] None") auto
  have "k < length reqs \<longrightarrow> out = Inl msg"
    using search_loop_error[OF r _ assms(2,3,4)] by blast
  then show ?thesis using r by (simp add: searchPlaces_def)
qed

text \<open>Two answers, the second with the payload \<open>OVER_QUERY_LIMIT\<close>.\<close>

theorem part000_search_fails_on_error_payload_witness:
  "(1::nat) < length [Response demo_page1, Response demo_error_page] \<and>
   [Response demo_page1, Response demo_error_page] ! 1 = Response demo_error_page \<and>
   error_message demo_error_page = Some ''OVER_QUERY_LIMIT'' \<and> ''OVER_QUERY_LIMIT'' \<noteq> [] \<and>
   searchPlaces Part000 [Response demo_page1, Response demo_error_page] 60 =
     Some (Inl ''OVER_QUERY_LIMIT'', [None, Some ''t1''])"
proof -
  have h: "(1::nat) < length [Response demo_page1, Response demo_error_page]"
    "[Response demo_page1, Response demo_error_page] ! 1 = Response demo_error_page"
    "error_message demo_error_page = Some ''OVER_QUERY_LIMIT''" "''OVER_QUERY_LIMIT'' \<noteq> []"
    by (simp_all add: demo_error_page_def)
  show ?thesis
    using h part000_search_fails_on_error_payload[OF h, of 60]
    by (simp add: searchPlaces_def demo_defs truthy_def page_results_def Let_def or_lit_def)
qed

text \<open>
  C5: for every maxResults, \<^verbatim>\<open>searchPlaces\<close> returns as soon as the service sends an
  answer that stops the loop, and what it returns is at most maxResults hits; they are
  the first maxResults hits of the whole pages fetched, and every page but the last left
  the count below maxResults, so the cut is made once, after the final page; and when the
  first response carries no continuation token exactly one page request is issued.
\<close>

theorem searchPlaces_at_most_maxResults:
  "(list_ex stops rs \<longrightarrow> searchPlaces v rs m \<noteq> None) \<and>
   (searchPlaces v rs m = Some (Inr hits, reqs) \<longrightarrow>
      length hits \<le> m \<and> hits = take m (fetched rs (length reqs)) \<and>
      (\<forall>k. 0 < k \<and> k < length reqs \<longrightarrow> length (fetched rs k) < m)) \<and>
   (\<not> truthy (next_page_token pg) \<longrightarrow>
      (\<exists>out. searchPlaces v (Response pg # rest) m = Some (out, [None]) \<and>
         (out = Inr (take m (page_results pg)) \<or> v = Part000 \<and> truthy (error_message pg))))"
proof -
  have a: "searchPlaces v rs m = Some (Inr hits, reqs) \<longrightarrow>
      length hits \<le> m \<and> hits = take m (fetched rs (length reqs)) \<and>
      (\<forall>k. 0 < k \<and> k < length reqs \<longrightarrow> length (fetched rs k) < m)"
    using search_loop_result[of v rs m "[]" None hits reqs]
    by (auto simp: searchPlaces_def)
  have b: "\<not> truthy (next_page_token pg) \<longrightarrow>
      (\<exists>out. searchPlaces v (Response pg # rest) m = Some (out, [None]) \<and>
         (out = Inr (take m (page_results pg)) \<or> v = Part000 \<and> truthy (error_message pg)))"
    by (simp add: searchPlaces_def Let_def truthy_def)
  have c: "list_ex stops rs \<longrightarrow> searchPlaces v rs m \<noteq> None"
    using search_loop_returns[of rs v m "[]" None] by (simp add: searchPlaces_def)
  show ?thesis using a b c by blast
qed

text \<open>Two pages of two hits with maxResults 3, and a single page without a token.\<close>

theorem searchPlaces_at_most_maxResults_witness:
  "list_ex stops [Response demo_page1, Response demo_page2] \<and>
   searchPlaces Index [Response demo_page1, Response demo_page2] 3 =
     Some (Inr [demo_hit ''a'', demo_hit ''b'', demo_hit ''c''], [None, Some ''t1'']) \<and>
   (0 < (1::nat) \<and> (1::nat) < length [None, Some ''t1'']) \<and>
   length (fetched [Response demo_page1, Response demo_page2] 1) < 3 \<and>
   \<not> truthy (next_page_token demo_page2) \<and>
   searchPlaces Index [Response demo_page2] 3 = Some (Inr [demo_hit ''c'', demo_hit ''d''], [None])"
proof -
  have s: "list_ex stops [Response demo_page1, Response demo_page2]"
    by (simp add: demo_page2_def truthy_def)
  have h: "searchPlaces Index [Response demo_page1, Response demo_page2] 3 =
     Some (Inr [demo_hit ''a'', demo_hit ''b'', demo_hit ''c''], [None, Some ''t1''])"
    by (simp add: searchPlaces_def demo_defs truthy_def page_results_def Let_def)
  have t: "\<not> truthy (next_page_token demo_page2)"
    by (simp add: demo_page2_def truthy_def)
  show ?thesis
    using s h t
      searchPlaces_at_most_maxResults[of "[Response demo_page1, Response demo_page2]" Index 3
        "[demo_hit ''a'', demo_hit ''b'', demo_hit ''c'']" "[None, Some ''t1'']" demo_page2 "[]"]
    by (auto simp: demo_page2_def page_results_def truthy_def)
qed

section \<open>Claims about the qualification filter\<close>




text \<open>
  C7: in index2.js and part_000, where the rating floor (3.0) is a rule, a record whose
  rating is present and strictly below the minimum is rejected, and a record whose rating
  is absent is admitted exactly when the other rules pass: the rating floor alone never
  rejects it.
\<close>

theorem rating_floor_rejects_low_and_ignores_absent:
  "MIN_RATING = 3 \<and>
   (rating d = Some r \<and> r < MIN_RATING \<longrightarrow>
      \<not> addToMainTable_index2 d \<and> \<not> fst (addToMainTable_part000 w d)) \<and>
   (rating d = None \<longrightarrow>
      (addToMainTable_index2 d \<longleftrightarrow>
         website_rule_index2 d \<and> activity_rule Index2 d \<and> popularity_rule Index2 d) \<and>
      (fst (addToMainTable_part000 w d) \<longleftrightarrow>
         website_rule_part000 w d \<and> activity_rule Part000 d \<and> popularity_rule Part000 d))"
proof -
  have "rating d = Some r \<and> r < MIN_RATING \<longrightarrow> \<not> rating_rule d"
    by (simp add: rating_rule_def)
  moreover have "rating d = None \<longrightarrow> rating_rule d"
    by (simp add: rating_rule_def)
  ultimately show ?thesis
    using addToMainTable_index2_iff[of d] addToMainTable_part000_iff[of w d]
    by (auto simp: MIN_RATING_def)
qed

text \<open>The example record with rating 2.9, and with no rating.\<close>

theorem rating_floor_rejects_low_and_ignores_absent_witness:
  "rating demo_low_rating_details = Some (29 / 10) \<and> (29 / 10 :: rat) < MIN_RATING \<and>
   \<not> addToMainTable_index2 demo_low_rating_details \<and>
   \<not> fst (addToMainTable_part000 demo_world demo_low_rating_details) \<and>
   rating demo_unrated_details = None \<and>
   addToMainTable_index2 demo_unrated_details \<and>
   fst (addToMainTable_part000 demo_world demo_unrated_details)"
proof -
  have l: "rating demo_low_rating_details = Some (29 / 10) \<and> (29 / 10 :: rat) < MIN_RATING"
    by (simp add: demo_low_rating_details_def MIN_RATING_def)
  have u: "rating demo_unrated_details = None"
    by (simp add: demo_unrated_details_def)
  have r: "website_rule_index2 demo_unrated_details \<and> activity_rule Index2 demo_unrated_details \<and>
      popularity_rule Index2 demo_unrated_details \<and>
      website_rule_part000 demo_world demo_unrated_details \<and>
      activity_rule Part000 demo_unrated_details \<and> popularity_rule Part000 demo_unrated_details"
    by (simp add: rule_defs demo_unrated_details_def demo_defs model_defs)
  show ?thesis
    using l u r
      rating_floor_rejects_low_and_ignores_absent[of demo_low_rating_details "29 / 10" demo_world]
      rating_floor_rejects_low_and_ignores_absent[of demo_unrated_details _ demo_world]
    by blast
qed

text \<open>
  C10: in index.js the website-quality class never affects admission: a hit that reaches
  the filters (complete and not cached) is forwarded to the record store exactly when it
  passes the activity, contactability and popularity rules, whatever its class; the
  class, one of No Website, Poor and Decent, is only stored in the field
  \<^verbatim>\<open>websiteQuality\<close> of the lead.
\<close>

theorem index_quality_class_does_not_gate:
  assumes "process_place_index n c p w = (n', c', ev)"
    and "d = getPlaceDetails Index (detail_resp w)"
    and "complete_index p d" and "\<not> isLoggedInSearchLogCached c (place_id p)"
  shows "(forwarded_leads ev \<noteq> [] \<longleftrightarrow>
            activity_rule Index d \<and> contactability_rule d \<and> popularity_rule Index d) \<and>
         (\<forall>l \<in> set (forwarded_leads ev).
            websiteQuality l = Some (evaluateWebsiteQuality_index (website d))) \<and>
         evaluateWebsiteQuality_index (website d) \<in> {''No Website'', ''Poor'', ''Decent''}"
  using process_place_index_forwards_iff[OF assms(1)] process_place_index_quality[OF assms(1)]
    evaluateWebsiteQuality_index_classes[of "website d"] assms(2,3,4)
  by blast

text \<open>Three businesses that differ in their website only, one of each class.\<close>

theorem index_quality_class_does_not_gate_witness:
  "(complete_index demo_place demo_facebook_details \<and>
    \<not> isLoggedInSearchLogCached {} (place_id demo_place) \<and>
    activity_rule Index demo_facebook_details \<and> contactability_rule demo_facebook_details \<and>
    popularity_rule Index demo_facebook_details) \<and>
   forwarded_leads (snd (snd (process_place_index 0 {} demo_place demo_facebook_world))) \<noteq> [] \<and>
   websiteQuality ` set (forwarded_leads (snd (snd (process_place_index 0 {} demo_place
        demo_facebook_world)))) = {Some ''Poor''} \<and>
   forwarded_leads (snd (snd (process_place_index 0 {} demo_place demo_site_world))) \<noteq> [] \<and>
   websiteQuality ` set (forwarded_leads (snd (snd (process_place_index 0 {} demo_place
        demo_site_world)))) = {Some ''Decent''} \<and>
   forwarded_leads (snd (snd (process_place_index 0 {} demo_place demo_world))) \<noteq> [] \<and>
   websiteQuality ` set (forwarded_leads (snd (snd (process_place_index 0 {} demo_place
        demo_world)))) = {Some ''No Website''}"
proof -
  have nc: "\<not> isLoggedInSearchLogCached {} (place_id demo_place)"
    by (simp add: isLoggedInSearchLogCached_def)
  have g: "demo_facebook_details = getPlaceDetails Index (detail_resp demo_facebook_world)"
    "demo_site_details = getPlaceDetails Index (detail_resp demo_site_world)"
    "demo_details = getPlaceDetails Index (detail_resp demo_world)"
    by (simp_all add: demo_facebook_world_def demo_site_world_def demo_world_def
        getPlaceDetails_def)
  have rf: "complete_index demo_place demo_facebook_details \<and>
      activity_rule Index demo_facebook_details \<and> contactability_rule demo_facebook_details \<and>
      popularity_rule Index demo_facebook_details"
    by (simp add: rule_defs demo_facebook_details_def demo_details_def demo_place_def truthy_def
        js_or_def or_lit_def MIN_REVIEWS_def)
  have rs: "complete_index demo_place demo_site_details \<and>
      activity_rule Index demo_site_details \<and> contactability_rule demo_site_details \<and>
      popularity_rule Index demo_site_details"
    by (simp add: rule_defs demo_site_details_def demo_details_def demo_place_def truthy_def
        js_or_def or_lit_def MIN_REVIEWS_def)
  have rn: "complete_index demo_place demo_details \<and>
      activity_rule Index demo_details \<and> contactability_rule demo_details \<and>
      popularity_rule Index demo_details"
    by (simp add: rule_defs demo_details_def demo_place_def truthy_def
        js_or_def or_lit_def MIN_REVIEWS_def)
  have pf: "\<And>w. process_place_index 0 {} demo_place w =
      (fst (process_place_index 0 {} demo_place w),
       fst (snd (process_place_index 0 {} demo_place w)),
       snd (snd (process_place_index 0 {} demo_place w)))"
    by simp
  show ?thesis
    using nc rf rs rn
      index_quality_class_does_not_gate[OF pf g(1) _ nc]
      index_quality_class_does_not_gate[OF pf g(2) _ nc]
      index_quality_class_does_not_gate[OF pf g(3) _ nc]
    unfolding demo_classes by (simp add: image_all_same)
qed

section \<open>Claims about \<^verbatim>\<open>generateCityGrid\<close>\<close>

text \<open>
  C8: for every centre coordinate that parses to numbers (a latitude of at most 90 and a
  longitude of at most 180 degrees in magnitude) and the fixed offset 0.03,
  \<^verbatim>\<open>generateCityGrid\<close> returns exactly 5 distinct coordinates in the order centre,
  latitude+offset, latitude-offset, longitude+offset, longitude-offset, each offset
  coordinate within \<open>2 ^ -45\<close> of the exact sum, with the first element equal to the input
  centre: a plus-shaped cross, since every point keeps the latitude or the longitude of
  the centre.
\<close>

theorem generateCityGrid_is_cross:
  assumes "\<bar>a\<bar> \<le> 90" and "\<bar>b\<bar> \<le> 180"
  shows "length (generateCityGrid (Num a, Num b)) = 5 \<and>
         distinct (generateCityGrid (Num a, Num b)) \<and>
         generateCityGrid (Num a, Num b) ! 0 = (Num a, Num b) \<and>
         (\<exists>a1 a2 b1 b2.
            generateCityGrid (Num a, Num b) =
              [(Num a, Num b), (Num a1, Num b), (Num a2, Num b), (Num a, Num b1), (Num a, Num b2)] \<and>
            \<bar>a1 - (a + 3 / 100)\<bar> \<le> 2 powi (- 45) \<and> \<bar>a2 - (a - 3 / 100)\<bar> \<le> 2 powi (- 45) \<and>
            \<bar>b1 - (b + 3 / 100)\<bar> \<le> 2 powi (- 45) \<and> \<bar>b2 - (b - 3 / 100)\<bar> \<le> 2 powi (- 45))"
proof -
  obtain d where d: "searchGridOffset = Num d" "js_neg searchGridOffset = Num (- d)"
    "\<bar>d - 3 / 100\<bar> \<le> 2 powi (- 46)"
    using offset_bounds by blast
  have a180: "\<bar>a\<bar> \<le> 180" using assms(1) by simp
  obtain a1 a2 where a: "to_double (a + d) = Num a1" "to_double (a + - d) = Num a2"
    "\<bar>a1 - (a + 3 / 100)\<bar> \<le> 2 powi (- 45)" "\<bar>a2 - (a - 3 / 100)\<bar> \<le> 2 powi (- 45)"
    using shifted[OF a180 d(3)] by blast
  obtain b1 b2 where b: "to_double (b + d) = Num b1" "to_double (b + - d) = Num b2"
    "\<bar>b1 - (b + 3 / 100)\<bar> \<le> 2 powi (- 45)" "\<bar>b2 - (b - 3 / 100)\<bar> \<le> 2 powi (- 45)"
    using shifted[OF assms(2) d(3)] by blast
  have m: "a - d = a + - d" "b - d = b + - d" by simp_all
  have g: "generateCityGrid (Num a, Num b) =
      [(Num a, Num b), (Num a1, Num b), (Num a2, Num b), (Num a, Num b1), (Num a, Num b2)]"
    unfolding generateCityGrid_def js_sub_def d(1,2)
    by (simp add: m a(1,2) b(1,2) del: add_uminus_conv_diff)
  have tiny: "(2::rat) powi (- 45) < 1 / 100" by simp
  have "a < a1" "a2 < a" "b < b1" "b2 < b"
    using a(3,4) b(3,4) tiny by linarith+
  then have "distinct (generateCityGrid (Num a, Num b))"
    unfolding g by auto
  then show ?thesis
    using g a(3,4) b(3,4) by auto
qed

text \<open>The centre 43.5, -79.25.\<close>

theorem generateCityGrid_is_cross_witness:
  "\<bar>87 / 2 :: rat\<bar> \<le> 90 \<and> \<bar>- (317 / 4) :: rat\<bar> \<le> 180 \<and>
   length (generateCityGrid (Num (87 / 2), Num (- (317 / 4)))) = 5 \<and>
   distinct (generateCityGrid (Num (87 / 2), Num (- (317 / 4)))) \<and>
   generateCityGrid (Num (87 / 2), Num (- (317 / 4))) ! 0 = (Num (87 / 2), Num (- (317 / 4)))"
proof -
  have h: "\<bar>87 / 2 :: rat\<bar> \<le> 90" "\<bar>- (317 / 4) :: rat\<bar> \<le> 180" by simp_all
  show ?thesis using h generateCityGrid_is_cross[OF h] by blast
qed

end
